theory Spec2Isabelle
  imports Main
begin

section \<open>Memory model\<close>

text \<open>
  A pointer \<open>T*\<close> is the allocation it points into (\<open>None\<close> for a pointer derived from
  \<open>nullptr\<close>) and a cell offset inside that allocation. \<open>size_t\<close> is modelled by \<open>nat\<close>:
  every count in the source is bounded by the capacity of a buffer that was really allocated.
\<close>

datatype ptr = Ptr (base: "nat option") (off: nat)

definition nullptr :: ptr where
  "nullptr = Ptr None 0"

fun ptr_add :: "ptr \<Rightarrow> nat \<Rightarrow> ptr" where
  "ptr_add (Ptr b i) k = Ptr b (i + k)"

text \<open>\<open>p - k\<close>; the source only steps back from a pointer whose offset is at least \<open>k\<close>.\<close>

fun ptr_sub :: "ptr \<Rightarrow> nat \<Rightarrow> ptr" where
  "ptr_sub (Ptr b i) k = Ptr b (i - k)"

text \<open>\<open>p <= q\<close> on pointers: meaningful inside one allocation only.\<close>

definition ptr_le :: "ptr \<Rightarrow> ptr \<Rightarrow> bool" where
  "ptr_le p q \<longleftrightarrow> base p = base q \<and> off p \<le> off q"

text \<open>\<open>p - q\<close> converted to \<open>size_t\<close>, used by the source after it asserted \<open>q <= p\<close>.\<close>

definition ptr_diff :: "ptr \<Rightarrow> ptr \<Rightarrow> nat" where
  "ptr_diff p q = off p - off q"

text \<open>A cell of raw storage either holds no object or a fully constructed \<open>T\<close>.\<close>

datatype 'a cell = Raw | Live 'a

fun is_live :: "'a cell \<Rightarrow> bool" where
  "is_live Raw = False"
| "is_live (Live x) = True"

datatype elem_op = Construct | CopyConstruct | MoveConstruct | CopyAssign | MoveAssign

text \<open>
  \<open>AllocationFailure\<close> and \<open>ElementFailure\<close> are C++ exceptions. \<open>AssertionFailure\<close> is a
  failed \<open>assert\<close> (abort); the \<open>Invalid\<close> errors stand for undefined behaviour: an access to
  a cell that is not there or holds no object, an iterator range whose end lies before its
  start, a release of a pointer that owns no allocation. None of these three is caught by a
  handler or unwinds a scope.
\<close>

datatype error =
    AllocationFailure
  | ElementFailure elem_op
  | AssertionFailure
  | InvalidAccess ptr
  | InvalidRange ptr ptr
  | InvalidFree ptr

fun is_exception :: "error \<Rightarrow> bool" where
  "is_exception AllocationFailure = True"
| "is_exception (ElementFailure k) = True"
| "is_exception AssertionFailure = False"
| "is_exception (InvalidAccess p) = False"
| "is_exception (InvalidRange p q) = False"
| "is_exception (InvalidFree p) = False"

text \<open>
  The properties of the element type \<open>T\<close> that the source inspects at compile time:
  \<open>sizeof(T)\<close> in bytes and the two type predicates of the relocation policy; and the
  state a value is left in once it has been moved from (the identity for trivially movable
  types, the empty string for strings, the null pointer for owning pointers).
\<close>

record 'a traits =
  sizeof_T :: nat
  nothrow_move_constructible :: bool
  copy_constructible :: bool
  moved_from :: "'a \<Rightarrow> 'a"

record RawMemory =
  buffer_m :: ptr
  capacity_m :: nat

record Vector =
  data_m :: RawMemory
  size_m :: nat

text \<open>
  The world: the \<open>Vector\<close> and the stand-alone \<open>RawMemory\<close> objects by identity, the
  allocations of the free store, the next address the allocator hands out, the number of
  objects whose storage was released or overwritten without their destructor having run, and
  the fault plan: \<open>Some k\<close> makes the \<open>k\<close>-th next operation that is able to throw (an
  allocation, a constructor, an assignment of \<open>T\<close>) throw; \<open>None\<close> lets all of them succeed.
\<close>

record 'a world =
  vectors :: "nat \<Rightarrow> Vector"
  rawmems :: "nat \<Rightarrow> RawMemory"
  blocks :: "nat \<Rightarrow> 'a cell list option"
  next_block :: nat
  leaked :: nat
  fault :: "nat option"

type_synonym ('a, 'r) comp = "'a world \<Rightarrow> (error + 'r) \<times> 'a world"

definition ret :: "'r \<Rightarrow> ('a, 'r) comp" where
  "ret r w = (Inr r, w)"

definition throw :: "error \<Rightarrow> ('a, 'r) comp" where
  "throw e w = (Inl e, w)"

definition bind :: "('a, 'r) comp \<Rightarrow> ('r \<Rightarrow> ('a, 's) comp) \<Rightarrow> ('a, 's) comp" where
  "bind m f w = (case m w of (Inl e, w') \<Rightarrow> (Inl e, w') | (Inr r, w') \<Rightarrow> f r w')"

text \<open>\<open>try { m } catch (...) { h }\<close>: only exceptions reach the handler.\<close>

definition try_catch :: "('a, 'r) comp \<Rightarrow> (error \<Rightarrow> ('a, 'r) comp) \<Rightarrow> ('a, 'r) comp" where
  "try_catch m h w =
     (case m w of
        (Inl e, w') \<Rightarrow> if is_exception e then h e w' else (Inl e, w')
      | (Inr r, w') \<Rightarrow> (Inr r, w'))"

definition may_fail :: "error \<Rightarrow> ('a, unit) comp" where
  "may_fail e w =
     (case fault w of
        None \<Rightarrow> (Inr (), w)
      | Some k \<Rightarrow>
          (case k of
             0 \<Rightarrow> (Inl e, w\<lparr>fault := None\<rparr>)
           | Suc j \<Rightarrow> (Inr (), w\<lparr>fault := Some j\<rparr>)))"

subsection \<open>Cells\<close>

definition cell_at :: "ptr \<Rightarrow> 'a world \<Rightarrow> 'a cell option" where
  "cell_at p w =
     (case base p of
        None \<Rightarrow> None
      | Some a \<Rightarrow>
          (case blocks w a of
             None \<Rightarrow> None
           | Some cs \<Rightarrow> if off p < length cs then Some (cs ! off p) else None))"

definition write_cell :: "ptr \<Rightarrow> 'a cell \<Rightarrow> 'a world \<Rightarrow> 'a world" where
  "write_cell p c w =
     (case base p of
        None \<Rightarrow> w
      | Some a \<Rightarrow>
          (case blocks w a of
             None \<Rightarrow> w
           | Some cs \<Rightarrow> w\<lparr>blocks := (blocks w)(a \<mapsto> cs[off p := c])\<rparr>))"

text \<open>Reading \<open>*p\<close> needs an object at \<open>p\<close>.\<close>

definition load :: "ptr \<Rightarrow> ('a, 'a) comp" where
  "load p w =
     (case cell_at p w of
        Some (Live x) \<Rightarrow> (Inr x, w)
      | Some Raw \<Rightarrow> (Inl (InvalidAccess p), w)
      | None \<Rightarrow> (Inl (InvalidAccess p), w))"

text \<open>
  Placement \<open>new (p) T\<close> once the constructor has produced \<open>x\<close>. An object that was still
  alive in the cell is overwritten without its destructor: it is counted as leaked.
\<close>

definition place :: "ptr \<Rightarrow> 'a \<Rightarrow> ('a, unit) comp" where
  "place p x w =
     (case cell_at p w of
        None \<Rightarrow> (Inl (InvalidAccess p), w)
      | Some Raw \<Rightarrow> (Inr (), write_cell p (Live x) w)
      | Some (Live y) \<Rightarrow> (Inr (), (write_cell p (Live x) w)\<lparr>leaked := leaked w + 1\<rparr>))"

text \<open>The object at \<open>p\<close> takes the value \<open>x\<close> (the effect of an assignment on its target).\<close>

definition assign :: "ptr \<Rightarrow> 'a \<Rightarrow> ('a, unit) comp" where
  "assign p x w =
     (case cell_at p w of
        Some (Live y) \<Rightarrow> (Inr (), write_cell p (Live x) w)
      | Some Raw \<Rightarrow> (Inl (InvalidAccess p), w)
      | None \<Rightarrow> (Inl (InvalidAccess p), w))"

text \<open>\<open>std::destroy_at(p)\<close>: the destructor of \<open>T\<close> does not throw.\<close>

definition destroy_at :: "ptr \<Rightarrow> ('a, unit) comp" where
  "destroy_at p w =
     (case cell_at p w of
        Some (Live y) \<Rightarrow> (Inr (), write_cell p Raw w)
      | Some Raw \<Rightarrow> (Inl (InvalidAccess p), w)
      | None \<Rightarrow> (Inl (InvalidAccess p), w))"

subsection \<open>Operations of the element type\<close>

text \<open>
  An operation of \<open>T\<close> that throws has no effect. \<open>construct_at p x\<close> is
  \<open>new (p) T(std::forward<Args>(args)...)\<close> for arguments from which the constructor
  builds the value \<open>x\<close>. A move constructor only throws when \<open>T\<close> is not nothrow move
  constructible.
\<close>

definition construct_at :: "ptr \<Rightarrow> 'a \<Rightarrow> ('a, unit) comp" where
  "construct_at p x = bind (may_fail (ElementFailure Construct)) (\<lambda>_. place p x)"

definition copy_construct :: "ptr \<Rightarrow> ptr \<Rightarrow> ('a, unit) comp" where
  "copy_construct p q =
     bind (load q) (\<lambda>x.
     bind (may_fail (ElementFailure CopyConstruct)) (\<lambda>_.
     place p x))"

definition move_construct :: "'a traits \<Rightarrow> ptr \<Rightarrow> ptr \<Rightarrow> ('a, unit) comp" where
  "move_construct T p q =
     bind (load q) (\<lambda>x.
     bind (if nothrow_move_constructible T then ret ()
           else may_fail (ElementFailure MoveConstruct)) (\<lambda>_.
     bind (place p x) (\<lambda>_.
     assign q (moved_from T x))))"

definition copy_assign :: "ptr \<Rightarrow> ptr \<Rightarrow> ('a, unit) comp" where
  "copy_assign p q =
     bind (load q) (\<lambda>x.
     bind (may_fail (ElementFailure CopyAssign)) (\<lambda>_.
     assign p x))"

definition move_assign :: "'a traits \<Rightarrow> ptr \<Rightarrow> ptr \<Rightarrow> ('a, unit) comp" where
  "move_assign T p q =
     bind (load q) (\<lambda>x.
     bind (may_fail (ElementFailure MoveAssign)) (\<lambda>_.
     bind (assign p x) (\<lambda>_.
     assign q (moved_from T x))))"

subsection \<open>The standard algorithms the source calls\<close>

fun destroy_n :: "ptr \<Rightarrow> nat \<Rightarrow> ('a, unit) comp" where
  "destroy_n p 0 = ret ()"
| "destroy_n p (Suc n) = bind (destroy_at p) (\<lambda>_. destroy_n (ptr_add p 1) n)"

text \<open>
  \<open>std::uninitialized_copy_n\<close> and \<open>std::uninitialized_move_n\<close>: when a construction throws,
  the objects already constructed in the destination are destroyed and the exception goes on.
\<close>

fun uninitialized_copy_n :: "ptr \<Rightarrow> nat \<Rightarrow> ptr \<Rightarrow> ('a, unit) comp" where
  "uninitialized_copy_n first 0 result = ret ()"
| "uninitialized_copy_n first (Suc n) result =
     bind (copy_construct result first) (\<lambda>_.
     try_catch (uninitialized_copy_n (ptr_add first 1) n (ptr_add result 1))
       (\<lambda>e. bind (destroy_at result) (\<lambda>_. throw e)))"

fun uninitialized_move_n :: "'a traits \<Rightarrow> ptr \<Rightarrow> nat \<Rightarrow> ptr \<Rightarrow> ('a, unit) comp" where
  "uninitialized_move_n T first 0 result = ret ()"
| "uninitialized_move_n T first (Suc n) result =
     bind (move_construct T result first) (\<lambda>_.
     try_catch (uninitialized_move_n T (ptr_add first 1) n (ptr_add result 1))
       (\<lambda>e. bind (destroy_at result) (\<lambda>_. throw e)))"

text \<open>The loops of \<open>std::copy\<close>, \<open>std::move\<close> and \<open>std::move_backward\<close> over \<open>n\<close> cells.\<close>

fun copy_loop :: "ptr \<Rightarrow> nat \<Rightarrow> ptr \<Rightarrow> ('a, unit) comp" where
  "copy_loop first 0 d_first = ret ()"
| "copy_loop first (Suc n) d_first =
     bind (copy_assign d_first first) (\<lambda>_. copy_loop (ptr_add first 1) n (ptr_add d_first 1))"

fun move_loop :: "'a traits \<Rightarrow> ptr \<Rightarrow> nat \<Rightarrow> ptr \<Rightarrow> ('a, unit) comp" where
  "move_loop T first 0 d_first = ret ()"
| "move_loop T first (Suc n) d_first =
     bind (move_assign T d_first first) (\<lambda>_.
     move_loop T (ptr_add first 1) n (ptr_add d_first 1))"

fun move_backward_loop :: "'a traits \<Rightarrow> nat \<Rightarrow> ptr \<Rightarrow> ptr \<Rightarrow> ('a, unit) comp" where
  "move_backward_loop T 0 last_p d_last = ret ()"
| "move_backward_loop T (Suc n) last_p d_last =
     bind (move_assign T (ptr_sub d_last 1) (ptr_sub last_p 1)) (\<lambda>_.
     move_backward_loop T n (ptr_sub last_p 1) (ptr_sub d_last 1))"

text \<open>A range \<open>[first, last)\<close> whose end is not reachable from its start is undefined.\<close>

definition valid_range :: "ptr \<Rightarrow> ptr \<Rightarrow> bool" where
  "valid_range first last_p \<longleftrightarrow> base first = base last_p \<and> off first \<le> off last_p"

definition std_copy :: "ptr \<Rightarrow> ptr \<Rightarrow> ptr \<Rightarrow> ('a, unit) comp" where
  "std_copy first last_p d_first =
     (if valid_range first last_p then copy_loop first (off last_p - off first) d_first
      else throw (InvalidRange first last_p))"

definition std_move :: "'a traits \<Rightarrow> ptr \<Rightarrow> ptr \<Rightarrow> ptr \<Rightarrow> ('a, unit) comp" where
  "std_move T first last_p d_first =
     (if valid_range first last_p then move_loop T first (off last_p - off first) d_first
      else throw (InvalidRange first last_p))"

definition move_backward :: "'a traits \<Rightarrow> ptr \<Rightarrow> ptr \<Rightarrow> ptr \<Rightarrow> ('a, unit) comp" where
  "move_backward T first last_p d_last =
     (if valid_range first last_p then move_backward_loop T (off last_p - off first) last_p d_last
      else throw (InvalidRange first last_p))"

section \<open>RawMemory\<close>

text \<open>\<open>size_t\<close> has 64 bits: its arithmetic is modulo \<open>SIZE_MAX + 1\<close>.\<close>

definition size_limit :: nat where
  "size_limit = 2 ^ 64"

text \<open>
  \<open>operator new(count)\<close> may throw; it hands out a fresh allocation of \<open>count\<close> bytes, which
  is room for \<open>count div sizeof(T)\<close> raw cells.
\<close>

definition operator_new :: "'a traits \<Rightarrow> nat \<Rightarrow> ('a, ptr) comp" where
  "operator_new T count =
     bind (may_fail AllocationFailure) (\<lambda>_ w.
       (Inr (Ptr (Some (next_block w)) 0),
        w\<lparr>blocks := (blocks w)(next_block w \<mapsto> replicate (count div sizeof_T T) Raw),
          next_block := Suc (next_block w)\<rparr>))"

text \<open>The byte count \<open>n * sizeof(T)\<close> is computed in \<open>size_t\<close>.\<close>

definition Allocate :: "'a traits \<Rightarrow> nat \<Rightarrow> ('a, ptr) comp" where
  "Allocate T n =
     (if n \<noteq> 0 then operator_new T ((n * sizeof_T T) mod size_limit)
      else ret nullptr)"

text \<open>
  \<open>operator delete\<close>: nothing for \<open>nullptr\<close>; otherwise the pointer must be the start of an
  allocation, which is released together with whatever its cells still hold.
\<close>

definition Deallocate :: "ptr \<Rightarrow> ('a, unit) comp" where
  "Deallocate buf w =
     (if buf = nullptr then (Inr (), w)
      else
        (case base buf of
           None \<Rightarrow> (Inl (InvalidFree buf), w)
         | Some a \<Rightarrow>
             (case blocks w a of
                None \<Rightarrow> (Inl (InvalidFree buf), w)
              | Some cs \<Rightarrow>
                  if off buf = 0 then
                    (Inr (), w\<lparr>blocks := (blocks w)(a := None),
                               leaked := leaked w + length (filter is_live cs)\<rparr>)
                  else (Inl (InvalidFree buf), w))))"

definition RawMemory_default :: RawMemory where
  "RawMemory_default = \<lparr>buffer_m = nullptr, capacity_m = 0\<rparr>"

definition RawMemory_ctor :: "'a traits \<Rightarrow> nat \<Rightarrow> ('a, RawMemory) comp" where
  "RawMemory_ctor T capacity =
     bind (Allocate T capacity) (\<lambda>p. ret \<lparr>buffer_m = p, capacity_m = capacity\<rparr>)"

text \<open>The move constructor: the pair is the new object and \<open>other\<close> afterwards.\<close>

definition RawMemory_move_ctor :: "RawMemory \<Rightarrow> RawMemory \<times> RawMemory" where
  "RawMemory_move_ctor other =
     (\<lparr>buffer_m = buffer_m other, capacity_m = capacity_m other\<rparr>,
      other\<lparr>capacity_m := 0, buffer_m := nullptr\<rparr>)"

definition RawMemory_dtor :: "RawMemory \<Rightarrow> ('a, unit) comp" where
  "RawMemory_dtor r = Deallocate (buffer_m r)"

text \<open>\<open>a.Swap(b)\<close>: the pair is \<open>a\<close> and \<open>b\<close> afterwards.\<close>

definition RawMemory_Swap :: "RawMemory \<Rightarrow> RawMemory \<Rightarrow> RawMemory \<times> RawMemory" where
  "RawMemory_Swap a b =
     (a\<lparr>buffer_m := buffer_m b, capacity_m := capacity_m b\<rparr>,
      b\<lparr>buffer_m := buffer_m a, capacity_m := capacity_m a\<rparr>)"

definition GetAddress :: "RawMemory \<Rightarrow> ptr" where
  "GetAddress r = buffer_m r"

definition RawMemory_Capacity :: "RawMemory \<Rightarrow> nat" where
  "RawMemory_Capacity r = capacity_m r"

definition RawMemory_plus :: "RawMemory \<Rightarrow> nat \<Rightarrow> ('a, ptr) comp" where
  "RawMemory_plus r offset =
     (if offset \<le> capacity_m r then ret (ptr_add (buffer_m r) offset)
      else throw AssertionFailure)"

definition RawMemory_index :: "RawMemory \<Rightarrow> nat \<Rightarrow> ('a, 'a) comp" where
  "RawMemory_index r index =
     (if index < capacity_m r then load (ptr_add (buffer_m r) index)
      else throw AssertionFailure)"

text \<open>
  Move assignment between the stand-alone objects \<open>this\<close> and \<open>other\<close> of the store, as the
  source writes it: release, reset the capacity, swap.
\<close>

definition RawMemory_move_assign :: "nat \<Rightarrow> nat \<Rightarrow> ('a, unit) comp" where
  "RawMemory_move_assign this other =
     (if this \<noteq> other then
        bind (\<lambda>w. Deallocate (buffer_m (rawmems w this)) w) (\<lambda>_ w.
          (let r = (rawmems w this)\<lparr>capacity_m := 0\<rparr>;
               (r', o') = RawMemory_Swap r (rawmems w other)
           in (Inr (), w\<lparr>rawmems := (rawmems w)(this := r', other := o')\<rparr>)))
      else ret ())"

section \<open>Vector\<close>

definition get_vec :: "nat \<Rightarrow> ('a, Vector) comp" where
  "get_vec this w = (Inr (vectors w this), w)"

definition put_vec :: "nat \<Rightarrow> Vector \<Rightarrow> ('a, unit) comp" where
  "put_vec this v w = (Inr (), w\<lparr>vectors := (vectors w)(this := v)\<rparr>)"

definition Vector_default :: Vector where
  "Vector_default = \<lparr>data_m = RawMemory_default, size_m = 0\<rparr>"

definition vbegin :: "Vector \<Rightarrow> ptr" where
  "vbegin v = GetAddress (data_m v)"

definition vend :: "Vector \<Rightarrow> ptr" where
  "vend v = ptr_add (GetAddress (data_m v)) (size_m v)"

definition cbegin :: "Vector \<Rightarrow> ptr" where
  "cbegin v = GetAddress (data_m v)"

definition cend :: "Vector \<Rightarrow> ptr" where
  "cend v = ptr_add (GetAddress (data_m v)) (size_m v)"

definition Size :: "Vector \<Rightarrow> nat" where
  "Size v = size_m v"

definition Capacity :: "Vector \<Rightarrow> nat" where
  "Capacity v = RawMemory_Capacity (data_m v)"

text \<open>\<open>__CopyMoveConstruct\<close>: the relocation policy, decided on the traits of \<open>T\<close>.\<close>

definition CopyMoveConstruct :: "'a traits \<Rightarrow> ptr \<Rightarrow> ptr \<Rightarrow> nat \<Rightarrow> ('a, unit) comp" where
  "CopyMoveConstruct T first result n =
     (if nothrow_move_constructible T \<or> \<not> copy_constructible T
      then uninitialized_move_n T first n result
      else uninitialized_copy_n first n result)"

text \<open>
  The copy constructor builds a new object from the value of \<open>other\<close>; when the copy of an
  element throws, the member \<open>data_\<close> that was already constructed is destructed.
\<close>

definition Vector_copy_ctor :: "'a traits \<Rightarrow> Vector \<Rightarrow> ('a, Vector) comp" where
  "Vector_copy_ctor T other =
     bind (RawMemory_ctor T (Size other)) (\<lambda>d.
     try_catch
       (bind (uninitialized_copy_n (GetAddress (data_m other)) (Size other) (GetAddress d)) (\<lambda>_.
        ret \<lparr>data_m = d, size_m = Size other\<rparr>))
       (\<lambda>e. bind (RawMemory_dtor d) (\<lambda>_. throw e)))"

definition Vector_dtor :: "Vector \<Rightarrow> ('a, unit) comp" where
  "Vector_dtor v =
     bind (destroy_n (GetAddress (data_m v)) (size_m v)) (\<lambda>_. RawMemory_dtor (data_m v))"

text \<open>\<open>a.Swap(b)\<close> on the values of two objects: the pair is \<open>a\<close> and \<open>b\<close> afterwards.\<close>

definition Swap_vals :: "Vector \<Rightarrow> Vector \<Rightarrow> Vector \<times> Vector" where
  "Swap_vals a b =
     (case RawMemory_Swap (data_m a) (data_m b) of
        (da, db) \<Rightarrow> (\<lparr>data_m = da, size_m = size_m b\<rparr>, \<lparr>data_m = db, size_m = size_m a\<rparr>))"

definition Swap :: "nat \<Rightarrow> nat \<Rightarrow> ('a, unit) comp" where
  "Swap this other w =
     (case Swap_vals (vectors w this) (vectors w other) of
        (a, b) \<Rightarrow> (Inr (), w\<lparr>vectors := (vectors w)(this := a, other := b)\<rparr>))"

text \<open>The move constructor: the members of the new object \<open>this\<close> take their defaults, then swap.\<close>

definition Vector_move_ctor :: "nat \<Rightarrow> nat \<Rightarrow> ('a, unit) comp" where
  "Vector_move_ctor this other =
     bind (put_vec this Vector_default) (\<lambda>_. Swap this other)"

definition Reserve :: "'a traits \<Rightarrow> nat \<Rightarrow> nat \<Rightarrow> ('a, unit) comp" where
  "Reserve T this new_capacity =
     bind (get_vec this) (\<lambda>v.
       if new_capacity \<le> RawMemory_Capacity (data_m v) then ret ()
       else
         bind (RawMemory_ctor T new_capacity) (\<lambda>new_data.
         try_catch
           (bind (CopyMoveConstruct T (GetAddress (data_m v)) (GetAddress new_data) (size_m v)) (\<lambda>_.
            bind (destroy_n (GetAddress (data_m v)) (size_m v)) (\<lambda>_.
            case RawMemory_Swap (data_m v) new_data of
              (d, new_data') \<Rightarrow>
                bind (put_vec this (v\<lparr>data_m := d\<rparr>)) (\<lambda>_.
                RawMemory_dtor new_data'))))
           (\<lambda>e. bind (RawMemory_dtor new_data) (\<lambda>_. throw e))))"

definition PopBack :: "nat \<Rightarrow> ('a, unit) comp" where
  "PopBack this =
     bind (get_vec this) (\<lambda>v.
       if size_m v > 0 then
         bind (destroy_at (ptr_sub (ptr_add (GetAddress (data_m v)) (size_m v)) 1)) (\<lambda>_.
         put_vec this (v\<lparr>size_m := size_m v - 1\<rparr>))
       else ret ())"

text \<open>
  \<open>EmplaceBack\<close> returns the address of the new element. The local \<open>tmp_mem\<close> is destructed
  when its scope is left: after the swap it holds the old buffer, during unwinding the
  fresh one.
\<close>

definition EmplaceBack :: "'a traits \<Rightarrow> nat \<Rightarrow> 'a \<Rightarrow> ('a, ptr) comp" where
  "EmplaceBack T this x =
     bind (get_vec this) (\<lambda>v.
     bind
       (if size_m v = Capacity v then
          bind (RawMemory_ctor T (if size_m v = 0 then 1 else (size_m v * 2) mod size_limit)) (\<lambda>tmp_mem.
          try_catch
            (bind (RawMemory_plus tmp_mem (size_m v)) (\<lambda>p.
             bind (construct_at p x) (\<lambda>_.
             bind (CopyMoveConstruct T (GetAddress (data_m v)) (GetAddress tmp_mem) (size_m v)) (\<lambda>_.
             bind (destroy_n (GetAddress (data_m v)) (size_m v)) (\<lambda>_.
             case RawMemory_Swap (data_m v) tmp_mem of
               (d, tmp_mem') \<Rightarrow>
                 bind (put_vec this (v\<lparr>data_m := d\<rparr>)) (\<lambda>_.
                 bind (RawMemory_dtor tmp_mem') (\<lambda>_.
                 ret p)))))))
            (\<lambda>e. bind (RawMemory_dtor tmp_mem) (\<lambda>_. throw e)))
        else
          bind (RawMemory_plus (data_m v) (size_m v)) (\<lambda>p.
          bind (construct_at p x) (\<lambda>_.
          ret p)))
       (\<lambda>p_empl_element.
     bind (get_vec this) (\<lambda>v'.
     bind (put_vec this (v'\<lparr>size_m := size_m v' + 1\<rparr>)) (\<lambda>_.
     ret p_empl_element))))"

text \<open>Both overloads of \<open>PushBack\<close> forward to \<open>EmplaceBack\<close>; \<open>val\<close> is the value appended.\<close>

definition PushBack :: "'a traits \<Rightarrow> nat \<Rightarrow> 'a \<Rightarrow> ('a, unit) comp" where
  "PushBack T this val = bind (EmplaceBack T this val) (\<lambda>_. ret ())"

definition Emplace :: "'a traits \<Rightarrow> nat \<Rightarrow> ptr \<Rightarrow> 'a \<Rightarrow> ('a, ptr) comp" where
  "Emplace T this pos x =
     bind (get_vec this) (\<lambda>v.
     if \<not> (ptr_le (vbegin v) pos \<and> ptr_le pos (vend v)) then throw AssertionFailure
     else
       let distance = ptr_diff pos (vbegin v) in
       bind
         (if size_m v = Capacity v then
            bind (RawMemory_ctor T (if size_m v = 0 then 1 else (size_m v * 2) mod size_limit)) (\<lambda>tmp_data.
            try_catch
              (bind (RawMemory_plus tmp_data distance) (\<lambda>p.
               bind (construct_at p x) (\<lambda>_.
               bind
                 (if nothrow_move_constructible T \<or> \<not> copy_constructible T then
                    bind (uninitialized_move_n T (vbegin v) distance (GetAddress tmp_data)) (\<lambda>_.
                    uninitialized_move_n T (ptr_add (vbegin v) distance) (size_m v - distance)
                      (ptr_add (ptr_add (GetAddress tmp_data) distance) 1))
                  else
                    try_catch
                      (bind (uninitialized_copy_n (vbegin v) distance (GetAddress tmp_data)) (\<lambda>_.
                       uninitialized_copy_n (ptr_add (vbegin v) distance) (size_m v - distance)
                         (ptr_add (ptr_add (GetAddress tmp_data) distance) 1)))
                      (\<lambda>e. bind (destroy_n (ptr_add (GetAddress tmp_data) distance) 1) (\<lambda>_.
                            throw e)))
                 (\<lambda>_.
               bind (destroy_n (vbegin v) (size_m v)) (\<lambda>_.
               case RawMemory_Swap (data_m v) tmp_data of
                 (d, tmp_data') \<Rightarrow>
                   bind (put_vec this (v\<lparr>data_m := d\<rparr>)) (\<lambda>_.
                   bind (RawMemory_dtor tmp_data') (\<lambda>_.
                   ret p)))))))
              (\<lambda>e. bind (RawMemory_dtor tmp_data) (\<lambda>_. throw e)))
          else
            bind
              (if size_m v \<noteq> 0 then
                 bind (RawMemory_plus (data_m v) (size_m v)) (\<lambda>q.
                 bind (move_construct T q (ptr_sub (vend v) 1)) (\<lambda>_.
                 bind
                   (try_catch
                      (move_backward T (ptr_add (vbegin v) distance) (vend v) (ptr_add (vend v) 1))
                      (\<lambda>e. bind (destroy_n (vend v) 1) (\<lambda>_. throw e)))
                   (\<lambda>_.
                 destroy_at (ptr_add (vbegin v) distance))))
               else ret ())
              (\<lambda>_.
            bind (RawMemory_plus (data_m v) distance) (\<lambda>p.
            bind (construct_at p x) (\<lambda>_.
            ret p))))
         (\<lambda>p_empl_elem.
       bind (get_vec this) (\<lambda>v'.
       bind (put_vec this (v'\<lparr>size_m := size_m v' + 1\<rparr>)) (\<lambda>_.
       ret p_empl_elem))))"

definition Insert :: "'a traits \<Rightarrow> nat \<Rightarrow> ptr \<Rightarrow> 'a \<Rightarrow> ('a, ptr) comp" where
  "Insert T this pos val = Emplace T this pos val"

definition Erase :: "'a traits \<Rightarrow> nat \<Rightarrow> ptr \<Rightarrow> ('a, ptr) comp" where
  "Erase T this pos =
     bind (get_vec this) (\<lambda>v.
     if \<not> (ptr_le (cbegin v) pos \<and> ptr_le pos (cend v)) then throw AssertionFailure
     else
       let distance = ptr_diff pos (cbegin v) in
       bind (std_move T (ptr_add (ptr_add (vbegin v) distance) 1) (vend v)
               (ptr_add (vbegin v) distance)) (\<lambda>_.
       bind (PopBack this) (\<lambda>_.
       bind (get_vec this) (\<lambda>v'.
       ret (ptr_add (vbegin v') distance)))))"

text \<open>\<open>operator[]\<close>, returning the value of the element it refers to.\<close>

definition Index :: "nat \<Rightarrow> nat \<Rightarrow> ('a, 'a) comp" where
  "Index this index =
     bind (get_vec this) (\<lambda>v.
     if index < size_m v then RawMemory_index (data_m v) index
     else throw AssertionFailure)"

text \<open>
  Copy assignment \<open>*this = other\<close>. The local \<open>other_copy\<close> of the first branch is destructed
  at the end of its block, holding what \<open>*this\<close> held before the swap.
\<close>

definition Vector_copy_assign :: "'a traits \<Rightarrow> nat \<Rightarrow> nat \<Rightarrow> ('a, unit) comp" where
  "Vector_copy_assign T this other =
     bind (get_vec other) (\<lambda>ov.
     let other_size = Size ov in
     if this \<noteq> other then
       bind (get_vec this) (\<lambda>v.
       if other_size > Capacity v then
         bind (Vector_copy_ctor T ov) (\<lambda>other_copy.
         case Swap_vals v other_copy of
           (v', other_copy') \<Rightarrow>
             bind (put_vec this v') (\<lambda>_.
             Vector_dtor other_copy'))
       else
         bind
           (if other_size < size_m v then
              bind (std_copy (GetAddress (data_m ov))
                      (ptr_add (GetAddress (data_m ov)) other_size)
                      (GetAddress (data_m v))) (\<lambda>_.
              destroy_n (ptr_add (GetAddress (data_m v)) other_size) (size_m v - other_size))
            else
              bind (std_copy (GetAddress (data_m ov))
                      (ptr_add (GetAddress (data_m ov)) (size_m v))
                      (GetAddress (data_m v))) (\<lambda>_.
              uninitialized_copy_n (ptr_add (GetAddress (data_m ov)) (size_m v))
                (other_size - size_m v) (ptr_add (GetAddress (data_m v)) (size_m v))))
           (\<lambda>_.
         put_vec this (v\<lparr>size_m := other_size\<rparr>)))
     else ret ())"

definition Vector_move_assign :: "nat \<Rightarrow> nat \<Rightarrow> ('a, unit) comp" where
  "Vector_move_assign this other =
     (if this \<noteq> other then Swap this other else ret ())"

section \<open>Vocabulary of the properties\<close>

text \<open>
  The buffer of a sequence that holds the values \<open>xs\<close> in a capacity of \<open>cap\<close> cells: the
  first \<open>length xs\<close> cells are live, the others raw.
\<close>

definition cells_of :: "'a list \<Rightarrow> nat \<Rightarrow> 'a cell list" where
  "cells_of xs cap = map Live xs @ replicate (cap - length xs) Raw"

text \<open>
  \<open>vec_holds w this xs cap\<close>: in the world \<open>w\<close> the object \<open>this\<close> is a sequence of size
  \<open>length xs\<close> and capacity \<open>cap\<close> whose elements are \<open>xs\<close>, in this order; its buffer is
  null exactly when the capacity is zero, and exactly the cells below the size are live.
\<close>

definition vec_holds :: "'a world \<Rightarrow> nat \<Rightarrow> 'a list \<Rightarrow> nat \<Rightarrow> bool" where
  "vec_holds w this xs cap \<longleftrightarrow>
     size_m (vectors w this) = length xs \<and>
     capacity_m (data_m (vectors w this)) = cap \<and>
     length xs \<le> cap \<and>
     (case buffer_m (data_m (vectors w this)) of
        Ptr None i \<Rightarrow> i = 0 \<and> cap = 0
      | Ptr (Some a) i \<Rightarrow> i = 0 \<and> cap \<noteq> 0 \<and> blocks w a = Some (cells_of xs cap))"

text \<open>The allocator's next address is not in use.\<close>

definition fresh_next :: "'a world \<Rightarrow> bool" where
  "fresh_next w \<longleftrightarrow> blocks w (next_block w) = None"

text \<open>
  The fault plan after \<open>n\<close> operations that were able to throw, and whether \<open>n\<close> of them
  pass without a throw.
\<close>

fun survive :: "nat \<Rightarrow> nat option \<Rightarrow> bool" where
  "survive n None = True"
| "survive n (Some k) = (n \<le> k)"

fun spend :: "nat \<Rightarrow> nat option \<Rightarrow> nat option" where
  "spend n None = None"
| "spend n (Some k) = Some (k - n)"

text \<open>The effect of the loops on the cells of a buffer.\<close>

fun blit :: "'a cell list \<Rightarrow> nat \<Rightarrow> nat \<Rightarrow> 'a cell list \<Rightarrow> nat \<Rightarrow> 'a cell list" where
  "blit src i 0 dst j = dst"
| "blit src i (Suc n) dst j = blit src (Suc i) n (dst[j := src ! i]) (Suc j)"

fun wipe :: "'a cell list \<Rightarrow> nat \<Rightarrow> nat \<Rightarrow> 'a cell list" where
  "wipe cs j 0 = cs"
| "wipe cs j (Suc n) = wipe (cs[j := Raw]) (Suc j) n"

text \<open>A cell once its object has been moved from.\<close>

fun vacated :: "('a \<Rightarrow> 'a) \<Rightarrow> 'a cell \<Rightarrow> 'a cell" where
  "vacated f Raw = Raw"
| "vacated f (Live x) = Live (f x)"

text \<open>The cells \<open>[i, i + n)\<close> after their objects have been moved from.\<close>

fun vacate :: "('a \<Rightarrow> 'a) \<Rightarrow> 'a cell list \<Rightarrow> nat \<Rightarrow> nat \<Rightarrow> 'a cell list" where
  "vacate f cs i 0 = cs"
| "vacate f cs i (Suc n) = vacate f (cs[i := vacated f (cs ! i)]) (Suc i) n"

text \<open>The cells after \<open>n\<close> move assignments, each from a cell to the cell before it.\<close>

fun slide :: "('a \<Rightarrow> 'a) \<Rightarrow> 'a cell list \<Rightarrow> nat \<Rightarrow> nat \<Rightarrow> 'a cell list" where
  "slide f cs j 0 = cs"
| "slide f cs j (Suc n) =
     slide f (cs[j := cs ! Suc j, Suc j := vacated f (cs ! Suc j)]) (Suc j) n"

text \<open>
  A buffer of \<open>n\<close> cells of \<open>T\<close> has a byte count that \<open>size_t\<close> represents: the
  multiplication in \<open>Allocate\<close> does not wrap.
\<close>

definition fits :: "'a traits \<Rightarrow> nat \<Rightarrow> bool" where
  "fits T n \<longleftrightarrow> 0 < sizeof_T T \<and> n * sizeof_T T < size_limit"

text \<open>The values a sequence is left with when the first \<open>k\<close> of them have been moved from.\<close>

definition moved_prefix :: "'a traits \<Rightarrow> nat \<Rightarrow> 'a list \<Rightarrow> 'a list" where
  "moved_prefix T k xs = map (moved_from T) (take k xs) @ drop k xs"

text \<open>How many of the \<open>n\<close> constructions of a relocation are able to throw.\<close>

definition move_cost :: "'a traits \<Rightarrow> nat \<Rightarrow> nat" where
  "move_cost T n = (if nothrow_move_constructible T then 0 else n)"

text \<open>The cells of the old buffer once \<open>n\<close> of them have been relocated.\<close>

definition origin_after :: "'a traits \<Rightarrow> 'a cell list \<Rightarrow> nat \<Rightarrow> 'a cell list" where
  "origin_after T src n =
     (if nothrow_move_constructible T \<or> \<not> copy_constructible T
      then vacate (moved_from T) src 0 n else src)"

text \<open>No address the allocator has yet to hand out is in use.\<close>

definition allocator_ok :: "'a world \<Rightarrow> bool" where
  "allocator_ok w \<longleftrightarrow> (\<forall>a. next_block w \<le> a \<longrightarrow> blocks w a = None)"

text \<open>The capacity after \<open>k\<close> appends to an empty sequence, each growing a full buffer to
  \<open>max 1 (2 * capacity)\<close>.\<close>

fun growth :: "nat \<Rightarrow> nat" where
  "growth 0 = 0"
| "growth (Suc k) = (if k = growth k then max 1 (2 * growth k) else growth k)"

text \<open>The sequence \<open>a\<close> has no buffer, or not the buffer of the sequence \<open>b\<close>.\<close>

definition separate_buffers :: "'a world \<Rightarrow> nat \<Rightarrow> nat \<Rightarrow> bool" where
  "separate_buffers w a b \<longleftrightarrow>
     base (buffer_m (data_m (vectors w a))) = None \<or>
     base (buffer_m (data_m (vectors w a))) \<noteq> base (buffer_m (data_m (vectors w b)))"

subsection \<open>Example worlds and element types\<close>

definition world0 :: "'a world" where
  "world0 = \<lparr>vectors = (\<lambda>_. Vector_default), rawmems = (\<lambda>_. RawMemory_default),
             blocks = (\<lambda>_. None), next_block = 0, leaked = 0, fault = None\<rparr>"

text \<open>Integers: four bytes, moving is copying.\<close>

definition trivial_T :: "nat traits" where
  "trivial_T = \<lparr>sizeof_T = 4, nothrow_move_constructible = True, copy_constructible = True,
                 moved_from = id\<rparr>"

text \<open>
  Strings, of 32 bytes, with a move constructor that cannot throw and leaves the source
  empty.
\<close>

definition string_T :: "string traits" where
  "string_T = \<lparr>sizeof_T = 32, nothrow_move_constructible = True, copy_constructible = True,
               moved_from = (\<lambda>_. [])\<rparr>"

text \<open>A copyable type whose move constructor may throw: relocation copies.\<close>

definition copying_T :: "string traits" where
  "copying_T = \<lparr>sizeof_T = 32, nothrow_move_constructible = False, copy_constructible = True,
                moved_from = (\<lambda>_. [])\<rparr>"

text \<open>A type that cannot be copied and whose move constructor may throw.\<close>

definition move_only_T :: "string traits" where
  "move_only_T = \<lparr>sizeof_T = 32, nothrow_move_constructible = False, copy_constructible = False,
                  moved_from = (\<lambda>_. [])\<rparr>"

fun push_all :: "'a traits \<Rightarrow> nat \<Rightarrow> 'a list \<Rightarrow> 'a world \<Rightarrow> 'a world" where
  "push_all T this [] w = w"
| "push_all T this (x # xs) w = push_all T this xs (snd (PushBack T this x w))"

text \<open>Two stand-alone buffers: object 0 of capacity 2 and object 1 of capacity 3.\<close>

definition two_buffers :: "nat world" where
  "two_buffers =
     snd (bind (RawMemory_ctor trivial_T 2) (\<lambda>a. bind (RawMemory_ctor trivial_T 3) (\<lambda>b w.
       (Inr (), w\<lparr>rawmems := (rawmems w)(0 := a, 1 := b)\<rparr>))) world0)"

section \<open>Sizes\<close>

lemma fits_mono:
  assumes "fits T m" "n \<le> m"
  shows "fits T n"
proof -
  have "n * sizeof_T T \<le> m * sizeof_T T" using assms(2) by (rule mult_le_mono1)
  also have "\<dots> < size_limit" using assms(1) by (simp add: fits_def)
  finally show ?thesis using assms(1) by (simp add: fits_def)
qed

lemma fits_lt:
  assumes "fits T n"
  shows "n mod size_limit = n"
proof -
  have "n \<le> n * sizeof_T T" using assms by (simp add: fits_def)
  also have "\<dots> < size_limit" using assms by (simp add: fits_def)
  finally show ?thesis by simp
qed

lemma fits_cells: "fits T n \<Longrightarrow> (n * sizeof_T T) mod size_limit div sizeof_T T = n"
  by (simp add: fits_def)

text \<open>When the byte count does not wrap, \<open>Allocate\<close> hands out the \<open>n\<close> cells asked for.\<close>

lemma Allocate_fits:
  "fits T n \<Longrightarrow> Allocate T n =
     (if n \<noteq> 0 then
        bind (may_fail AllocationFailure) (\<lambda>_ w.
          (Inr (Ptr (Some (next_block w)) 0),
           w\<lparr>blocks := (blocks w)(next_block w \<mapsto> replicate n Raw),
             next_block := Suc (next_block w)\<rparr>))
      else ret nullptr)"
  by (simp add: Allocate_def operator_new_def fits_cells)

lemma fits_small: "0 < sizeof_T T \<Longrightarrow> sizeof_T T \<le> 64 \<Longrightarrow> n \<le> 64 \<Longrightarrow> fits T n"
proof -
  assume "0 < sizeof_T T" "sizeof_T T \<le> 64" "n \<le> 64"
  moreover from this have "n * sizeof_T T \<le> 64 * 64" by (intro mult_mono) simp_all
  ultimately show ?thesis by (simp add: fits_def size_limit_def)
qed

lemma small_mod: "n \<le> 64 \<Longrightarrow> n mod size_limit = n"
  by (simp add: size_limit_def)

section \<open>Evaluation\<close>

lemmas model_defs =
  bind_def ret_def throw_def try_catch_def may_fail_def cell_at_def write_cell_def
  load_def place_def assign_def destroy_at_def construct_at_def copy_construct_def
  move_construct_def copy_assign_def move_assign_def valid_range_def std_copy_def std_move_def
  move_backward_def Allocate_fits Deallocate_def RawMemory_default_def RawMemory_ctor_def
  RawMemory_move_ctor_def RawMemory_dtor_def RawMemory_Swap_def GetAddress_def
  RawMemory_Capacity_def RawMemory_plus_def RawMemory_index_def RawMemory_move_assign_def
  get_vec_def put_vec_def Vector_default_def vbegin_def vend_def cbegin_def cend_def Size_def
  Capacity_def CopyMoveConstruct_def Vector_copy_ctor_def Vector_dtor_def Swap_vals_def Swap_def
  Vector_move_ctor_def Reserve_def PopBack_def EmplaceBack_def PushBack_def Emplace_def
  Insert_def Erase_def Index_def Vector_copy_assign_def Vector_move_assign_def nullptr_def
  ptr_le_def ptr_diff_def

lemmas example_defs =
  world0_def trivial_T_def string_T_def copying_T_def move_only_T_def two_buffers_def
  vec_holds_def cells_of_def fresh_next_def Let_def eval_nat_numeral fits_small small_mod

section \<open>Lemmas\<close>

subsection \<open>Fault plans\<close>

lemma survive_0 [simp]: "survive 0 f" by (cases f) auto
lemma spend_0 [simp]: "spend 0 f = f" by (cases f) auto
lemma survive_Suc: "survive (Suc n) f \<longleftrightarrow> survive (Suc 0) f \<and> survive n (spend (Suc 0) f)" by (cases f) auto
lemma spend_Suc: "spend (Suc n) f = spend n (spend (Suc 0) f)" by (cases f) auto
lemma survive_add: "survive (m + n) f \<longleftrightarrow> survive m f \<and> survive n (spend m f)" by (cases f) auto
lemma spend_spend: "spend n (spend m f) = spend (m + n) f" by (cases f) auto

subsection \<open>Cells of a buffer\<close>

lemma length_blit [simp]: "length (blit src i n dst j) = length dst"
  by (induction n arbitrary: i j dst) auto

lemma nth_blit:
  "p < length dst \<Longrightarrow> j + n \<le> length dst \<Longrightarrow>
   blit src i n dst j ! p = (if j \<le> p \<and> p < j + n then src ! (i + (p - j)) else dst ! p)"
proof (induction n arbitrary: i j dst)
  case 0
  then show ?case by auto
next
  case (Suc n)
  then show ?case by (auto simp: nth_list_update intro!: arg_cong[where f = "nth src"])
qed

lemma blit_cong:
  "(\<And>p. i \<le> p \<Longrightarrow> p < i + n \<Longrightarrow> src' ! p = src ! p) \<Longrightarrow> blit src' i n dst j = blit src i n dst j"
  by (induction n arbitrary: i j dst) auto

lemma length_wipe [simp]: "length (wipe cs j n) = length cs"
  by (induction n arbitrary: j cs) auto

lemma nth_wipe:
  "p < length cs \<Longrightarrow> j + n \<le> length cs \<Longrightarrow>
   wipe cs j n ! p = (if j \<le> p \<and> p < j + n then Raw else cs ! p)"
  by (induction n arbitrary: j cs) (auto simp: nth_list_update)

lemma length_vacate [simp]: "length (vacate f cs i n) = length cs"
  by (induction n arbitrary: i cs) auto

lemma nth_vacate:
  "p < length cs \<Longrightarrow> i + n \<le> length cs \<Longrightarrow>
   vacate f cs i n ! p = (if i \<le> p \<and> p < i + n then vacated f (cs ! p) else cs ! p)"
  by (induction n arbitrary: i cs) (auto simp: nth_list_update)

lemma length_slide [simp]: "length (slide f cs j n) = length cs"
  by (induction n arbitrary: j cs) auto

lemma nth_slide:
  "p < length cs \<Longrightarrow> j + n < length cs \<Longrightarrow>
   slide f cs j n ! p =
     (if j \<le> p \<and> p < j + n then cs ! Suc p
      else if p = j + n \<and> 0 < n then vacated f (cs ! p) else cs ! p)"
  by (induction n arbitrary: j cs) (auto simp: nth_list_update)

lemma length_cells_of [simp]: "length xs \<le> cap \<Longrightarrow> length (cells_of xs cap) = cap"
  by (simp add: cells_of_def)

lemma nth_cells_of:
  "p < cap \<Longrightarrow> length xs \<le> cap \<Longrightarrow>
   cells_of xs cap ! p = (if p < length xs then Live (xs ! p) else Raw)"
  by (simp add: cells_of_def nth_append)

lemma is_live_vacated [simp]: "is_live (vacated f c) = is_live c"
  by (cases c) auto

subsection \<open>Steps and loops on the free store\<close>

lemma may_fail_char:
  "may_fail e w = (if survive (Suc 0) (fault w) then (Inr (), w\<lparr>fault := spend (Suc 0) (fault w)\<rparr>)
                   else (Inl e, w\<lparr>fault := None\<rparr>))"
  by (cases "fault w") (auto simp: may_fail_def split: nat.splits)

lemma load_Live:
  "blocks w a = Some cs \<Longrightarrow> i < length cs \<Longrightarrow> cs ! i = Live x \<Longrightarrow>
   load (Ptr (Some a) i) w = (Inr x, w)"
  by (simp add: load_def cell_at_def)

lemma place_Raw:
  "blocks w a = Some cs \<Longrightarrow> i < length cs \<Longrightarrow> cs ! i = Raw \<Longrightarrow>
   place (Ptr (Some a) i) x w = (Inr (), w\<lparr>blocks := (blocks w)(a \<mapsto> cs[i := Live x])\<rparr>)"
  by (simp add: place_def cell_at_def write_cell_def)

lemma assign_Live:
  "blocks w a = Some cs \<Longrightarrow> i < length cs \<Longrightarrow> cs ! i = Live y \<Longrightarrow>
   assign (Ptr (Some a) i) x w = (Inr (), w\<lparr>blocks := (blocks w)(a \<mapsto> cs[i := Live x])\<rparr>)"
  by (simp add: assign_def cell_at_def write_cell_def)

lemma destroy_at_Live:
  "blocks w a = Some cs \<Longrightarrow> i < length cs \<Longrightarrow> cs ! i = Live y \<Longrightarrow>
   destroy_at (Ptr (Some a) i) w = (Inr (), w\<lparr>blocks := (blocks w)(a \<mapsto> cs[i := Raw])\<rparr>)"
  by (simp add: destroy_at_def cell_at_def write_cell_def)

lemma live_cell: "is_live c \<Longrightarrow> \<exists>x. c = Live x"
  by (cases c) auto

lemma destroy_n_char:
  assumes "blocks w a = Some cs" "j + n \<le> length cs"
          "\<forall>p. j \<le> p \<and> p < j + n \<longrightarrow> is_live (cs ! p)"
  shows "destroy_n (Ptr (Some a) j) n w = (Inr (), w\<lparr>blocks := (blocks w)(a \<mapsto> wipe cs j n)\<rparr>)"
  using assms
proof (induction n arbitrary: w j cs)
  case 0
  then show ?case by (simp add: ret_def fun_upd_idem)
next
  case (Suc n)
  from Suc.prems obtain x where x: "cs ! j = Live x"
    using live_cell[of "cs ! j"] by auto
  let ?w1 = "w\<lparr>blocks := (blocks w)(a \<mapsto> cs[j := Raw])\<rparr>"
  have d: "destroy_at (Ptr (Some a) j) w = (Inr (), ?w1)"
    using Suc.prems x by (intro destroy_at_Live) auto
  have "destroy_n (Ptr (Some a) (Suc j)) n ?w1 =
          (Inr (), ?w1\<lparr>blocks := (blocks ?w1)(a \<mapsto> wipe (cs[j := Raw]) (Suc j) n)\<rparr>)"
    using Suc.prems by (intro Suc.IH) auto
  then show ?case
    by (simp add: d bind_def) (simp add: fun_upd_def)
qed

lemma copy_construct_char:
  assumes "blocks w a = Some src" "blocks w b = Some dst" "i < length src" "j < length dst"
          "src ! i = Live x" "dst ! j = Raw"
  shows "copy_construct (Ptr (Some b) j) (Ptr (Some a) i) w =
     (if survive (Suc 0) (fault w)
      then (Inr (), w\<lparr>blocks := (blocks w)(b \<mapsto> dst[j := Live x]), fault := spend (Suc 0) (fault w)\<rparr>)
      else (Inl (ElementFailure CopyConstruct), w\<lparr>fault := None\<rparr>))"
  using assms
  by (simp add: copy_construct_def bind_def load_Live may_fail_char place_Raw)

lemma uninitialized_copy_n_char:
  assumes "blocks w a = Some src" "blocks w b = Some dst" "a \<noteq> b"
          "i + n \<le> length src" "j + n \<le> length dst"
          "\<forall>p. i \<le> p \<and> p < i + n \<longrightarrow> is_live (src ! p)"
          "\<forall>p. j \<le> p \<and> p < j + n \<longrightarrow> dst ! p = Raw"
  shows "uninitialized_copy_n (Ptr (Some a) i) n (Ptr (Some b) j) w =
     (if survive n (fault w)
      then (Inr (), w\<lparr>blocks := (blocks w)(b \<mapsto> blit src i n dst j), fault := spend n (fault w)\<rparr>)
      else (Inl (ElementFailure CopyConstruct), w\<lparr>fault := None\<rparr>))"
  using assms
proof (induction n arbitrary: w i j dst)
  case 0
  then show ?case by (simp add: ret_def fun_upd_idem)
next
  case (Suc n)
  from Suc.prems obtain x where x: "src ! i = Live x"
    using live_cell[of "src ! i"] by auto
  have raw: "dst ! j = Raw" using Suc.prems by simp
  let ?w1 = "w\<lparr>blocks := (blocks w)(b \<mapsto> dst[j := Live x]), fault := spend (Suc 0) (fault w)\<rparr>"
  have cc: "copy_construct (Ptr (Some b) j) (Ptr (Some a) i) w =
     (if survive (Suc 0) (fault w) then (Inr (), ?w1)
      else (Inl (ElementFailure CopyConstruct), w\<lparr>fault := None\<rparr>))"
    using Suc.prems x raw by (intro copy_construct_char) auto
  have "uninitialized_copy_n (Ptr (Some a) (Suc i)) n (Ptr (Some b) (Suc j)) ?w1 =
     (if survive n (fault ?w1)
      then (Inr (), ?w1\<lparr>blocks := (blocks ?w1)(b \<mapsto> blit src (Suc i) n (dst[j := Live x]) (Suc j)),
                       fault := spend n (fault ?w1)\<rparr>)
      else (Inl (ElementFailure CopyConstruct), ?w1\<lparr>fault := None\<rparr>))"
    using Suc.prems by (intro Suc.IH) auto
  then have IH: "uninitialized_copy_n (Ptr (Some a) (Suc i)) n (Ptr (Some b) (Suc j)) ?w1 =
     (if survive n (spend (Suc 0) (fault w))
      then (Inr (), w\<lparr>blocks := (blocks w)(b \<mapsto> blit src (Suc i) n (dst[j := Live x]) (Suc j)),
                       fault := spend n (spend (Suc 0) (fault w))\<rparr>)
      else (Inl (ElementFailure CopyConstruct),
            w\<lparr>blocks := (blocks w)(b \<mapsto> dst[j := Live x]), fault := None\<rparr>))"
    by simp
  have rollback: "destroy_at (Ptr (Some b) j)
       (w\<lparr>blocks := (blocks w)(b \<mapsto> dst[j := Live x]), fault := None\<rparr>) = (Inr (), w\<lparr>fault := None\<rparr>)"
  proof -
    have 1: "dst[j := Raw] = dst" using raw by (metis list_update_id)
    have 2: "(blocks w)(b \<mapsto> dst) = blocks w" using Suc.prems by (simp add: fun_upd_idem)
    show ?thesis
      using Suc.prems
      by (subst destroy_at_Live[where cs = "dst[j := Live x]" and y = x]) (auto simp: 1 2)
  qed
  show ?case
    by (simp add: cc IH rollback x bind_def try_catch_def throw_def survive_Suc[of n] spend_Suc[of n])
       (simp add: fun_upd_def)
qed

lemma move_construct_char:
  assumes "blocks w a = Some src" "blocks w b = Some dst" "a \<noteq> b" "i < length src" "j < length dst"
          "src ! i = Live x" "dst ! j = Raw"
  shows "move_construct T (Ptr (Some b) j) (Ptr (Some a) i) w =
     (if survive (move_cost T (Suc 0)) (fault w)
      then (Inr (), w\<lparr>blocks := (blocks w)(a \<mapsto> src[i := Live (moved_from T x)], b \<mapsto> dst[j := Live x]),
                      fault := spend (move_cost T (Suc 0)) (fault w)\<rparr>)
      else (Inl (ElementFailure MoveConstruct), w\<lparr>fault := None\<rparr>))"
proof -
  let ?w1 = "w\<lparr>blocks := (blocks w)(b \<mapsto> dst[j := Live x])\<rparr>"
  have l: "load (Ptr (Some a) i) w = (Inr x, w)" using assms by (intro load_Live) auto
  have p: "\<And>f. place (Ptr (Some b) j) x (w\<lparr>fault := f\<rparr>) =
      (Inr (), w\<lparr>fault := f, blocks := (blocks w)(b \<mapsto> dst[j := Live x])\<rparr>)"
    using assms by (subst place_Raw[where cs = dst]) auto
  have p0: "place (Ptr (Some b) j) x w = (Inr (), w\<lparr>blocks := (blocks w)(b \<mapsto> dst[j := Live x])\<rparr>)"
    using assms by (subst place_Raw[where cs = dst]) auto
  have s: "\<And>f. assign (Ptr (Some a) i) (moved_from T x) (w\<lparr>fault := f, blocks := (blocks w)(b \<mapsto> dst[j := Live x])\<rparr>) =
      (Inr (), w\<lparr>fault := f, blocks := (blocks w)(a \<mapsto> src[i := Live (moved_from T x)], b \<mapsto> dst[j := Live x])\<rparr>)"
    using assms by (subst assign_Live[where cs = src and y = x]) (auto simp: fun_upd_twist)
  have s0: "assign (Ptr (Some a) i) (moved_from T x) (w\<lparr>blocks := (blocks w)(b \<mapsto> dst[j := Live x])\<rparr>) =
      (Inr (), w\<lparr>blocks := (blocks w)(a \<mapsto> src[i := Live (moved_from T x)], b \<mapsto> dst[j := Live x])\<rparr>)"
    using assms by (subst assign_Live[where cs = src and y = x]) (auto simp: fun_upd_twist)
  show ?thesis
    by (simp add: move_construct_def bind_def l may_fail_char p p0 s s0 ret_def move_cost_def)
qed

lemma uninitialized_move_n_char:
  assumes "blocks w a = Some src" "blocks w b = Some dst" "a \<noteq> b"
          "i + n \<le> length src" "j + n \<le> length dst"
          "\<forall>p. i \<le> p \<and> p < i + n \<longrightarrow> is_live (src ! p)"
          "\<forall>p. j \<le> p \<and> p < j + n \<longrightarrow> dst ! p = Raw"
  shows "(if survive (move_cost T n) (fault w)
          then uninitialized_move_n T (Ptr (Some a) i) n (Ptr (Some b) j) w =
            (Inr (), w\<lparr>blocks := (blocks w)(a \<mapsto> vacate (moved_from T) src i n, b \<mapsto> blit src i n dst j),
                      fault := spend (move_cost T n) (fault w)\<rparr>)
          else isl (fst (uninitialized_move_n T (Ptr (Some a) i) n (Ptr (Some b) j) w)))"
  using assms
proof (induction n arbitrary: w i j src dst)
  case 0
  then show ?case by (simp add: ret_def fun_upd_idem move_cost_def)
next
  case (Suc n)
  from Suc.prems obtain x where x: "src ! i = Live x"
    using live_cell[of "src ! i"] by auto
  have raw: "dst ! j = Raw" using Suc.prems by simp
  let ?src1 = "src[i := Live (moved_from T x)]"
  let ?dst1 = "dst[j := Live x]"
  let ?w1 = "w\<lparr>blocks := (blocks w)(a \<mapsto> ?src1, b \<mapsto> ?dst1),
                fault := spend (move_cost T (Suc 0)) (fault w)\<rparr>"
  have mc: "move_construct T (Ptr (Some b) j) (Ptr (Some a) i) w =
     (if survive (move_cost T (Suc 0)) (fault w) then (Inr (), ?w1)
      else (Inl (ElementFailure MoveConstruct), w\<lparr>fault := None\<rparr>))"
    using Suc.prems x raw by (intro move_construct_char) auto
  have IH0: "(if survive (move_cost T n) (fault ?w1)
          then uninitialized_move_n T (Ptr (Some a) (Suc i)) n (Ptr (Some b) (Suc j)) ?w1 =
            (Inr (), ?w1\<lparr>blocks := (blocks ?w1)(a \<mapsto> vacate (moved_from T) ?src1 (Suc i) n,
                                                 b \<mapsto> blit ?src1 (Suc i) n ?dst1 (Suc j)),
                      fault := spend (move_cost T n) (fault ?w1)\<rparr>)
          else isl (fst (uninitialized_move_n T (Ptr (Some a) (Suc i)) n (Ptr (Some b) (Suc j)) ?w1)))"
    using Suc.prems by (intro Suc.IH) (auto simp: nth_list_update)
  have bl: "blit ?src1 (Suc i) n ?dst1 (Suc j) = blit src (Suc i) n ?dst1 (Suc j)"
    by (rule blit_cong) simp
  have costs: "survive (move_cost T (Suc n)) (fault w) \<longleftrightarrow>
        survive (move_cost T (Suc 0)) (fault w) \<and> survive (move_cost T n) (spend (move_cost T (Suc 0)) (fault w))"
      "spend (move_cost T (Suc n)) (fault w) = spend (move_cost T n) (spend (move_cost T (Suc 0)) (fault w))"
    by (auto simp: move_cost_def survive_Suc[of n] spend_Suc[of n])
  show ?case
  proof (cases "survive (move_cost T (Suc 0)) (fault w)")
    case False
    then show ?thesis by (simp add: mc bind_def costs)
  next
    case s1: True
    show ?thesis
    proof (cases "survive (move_cost T n) (spend (move_cost T (Suc 0)) (fault w))")
      case True
      with IH0 have "uninitialized_move_n T (Ptr (Some a) (Suc i)) n (Ptr (Some b) (Suc j)) ?w1 =
            (Inr (), w\<lparr>blocks := (blocks w)(a \<mapsto> vacate (moved_from T) ?src1 (Suc i) n,
                                                 b \<mapsto> blit src (Suc i) n ?dst1 (Suc j)),
                      fault := spend (move_cost T n) (spend (move_cost T (Suc 0)) (fault w))\<rparr>)"
        by (simp add: bl)
      with s1 True show ?thesis
        by (simp add: mc bind_def try_catch_def costs x)
    next
      case False
      with IH0 have "isl (fst (uninitialized_move_n T (Ptr (Some a) (Suc i)) n (Ptr (Some b) (Suc j)) ?w1))"
        by simp
      then obtain e w2 where w2: "uninitialized_move_n T (Ptr (Some a) (Suc i)) n (Ptr (Some b) (Suc j)) ?w1 =
                 (Inl e, w2)"
        by (metis prod.collapse isl_def)
      with s1 False show ?thesis
        by (simp add: mc bind_def try_catch_def costs throw_def split: prod.splits sum.splits)
    qed
  qed
qed

lemma RawMemory_ctor_char:
  "n \<noteq> 0 \<Longrightarrow> fits T n \<Longrightarrow> RawMemory_ctor T n w =
     (if survive (Suc 0) (fault w)
      then (Inr \<lparr>buffer_m = Ptr (Some (next_block w)) 0, capacity_m = n\<rparr>,
            w\<lparr>blocks := (blocks w)(next_block w \<mapsto> replicate n Raw),
              next_block := Suc (next_block w), fault := spend (Suc 0) (fault w)\<rparr>)
      else (Inl AllocationFailure, w\<lparr>fault := None\<rparr>))"
  by (simp add: RawMemory_ctor_def Allocate_fits bind_def may_fail_char ret_def)

lemma Deallocate_block:
  "blocks w a = Some cs \<Longrightarrow> Deallocate (Ptr (Some a) 0) w =
     (Inr (), w\<lparr>blocks := (blocks w)(a := None),
                leaked := leaked w + length (filter is_live cs)\<rparr>)"
  by (simp add: Deallocate_def nullptr_def)

lemma Deallocate_null: "Deallocate (Ptr None 0) w = (Inr (), w)"
  by (simp add: Deallocate_def nullptr_def)

lemma blit_cells_of:
  assumes "length xs \<le> cap" "length xs \<le> length dst"
  shows "blit (cells_of xs cap) 0 (length xs) dst 0 = map Live xs @ drop (length xs) dst"
proof (rule nth_equalityI)
  show "length (blit (cells_of xs cap) 0 (length xs) dst 0) = length (map Live xs @ drop (length xs) dst)"
    using assms by simp
next
  fix p assume "p < length (blit (cells_of xs cap) 0 (length xs) dst 0)"
  then have p: "p < length dst" by simp
  show "blit (cells_of xs cap) 0 (length xs) dst 0 ! p = (map Live xs @ drop (length xs) dst) ! p"
    using p assms by (simp add: nth_blit nth_cells_of nth_append)
qed

lemma wipe_all:
  assumes "m \<le> length cs" "\<forall>p. m \<le> p \<and> p < length cs \<longrightarrow> cs ! p = Raw"
  shows "wipe cs 0 m = replicate (length cs) Raw"
proof (rule nth_equalityI)
  show "length (wipe cs 0 m) = length (replicate (length cs) Raw)" by simp
next
  fix p assume "p < length (wipe cs 0 m)"
  then show "wipe cs 0 m ! p = replicate (length cs) Raw ! p"
    using assms by (simp add: nth_wipe)
qed

lemma no_live_replicate [simp]: "filter is_live (replicate n Raw) = []"
  by (induction n) auto

lemma cells_of_Nil [simp]: "cells_of [] cap = replicate cap Raw"
  by (simp add: cells_of_def)

text \<open>The end of a relocation: the originals are destroyed, the buffers swapped, the old one released.\<close>

lemma finish_relocation:
  assumes "blocks w a = Some cs" "length cs = cap" "m \<le> cap"
          "\<forall>p. p < m \<longrightarrow> is_live (cs ! p)" "\<forall>p. m \<le> p \<and> p < cap \<longrightarrow> cs ! p = Raw"
          "data_m v = \<lparr>buffer_m = Ptr (Some a) 0, capacity_m = cap\<rparr>"
  shows "bind (destroy_n (GetAddress (data_m v)) m) (\<lambda>_.
            case RawMemory_Swap (data_m v) new_data of
              (d, new_data') \<Rightarrow>
                bind (put_vec this (v\<lparr>data_m := d\<rparr>)) (\<lambda>_. bind (RawMemory_dtor new_data') k)) w =
         k () (w\<lparr>vectors := (vectors w)(this := v\<lparr>data_m := new_data\<rparr>),
                blocks := (blocks w)(a := None)\<rparr>)"
proof -
  have d: "destroy_n (Ptr (Some a) 0) m w = (Inr (), w\<lparr>blocks := (blocks w)(a \<mapsto> wipe cs 0 m)\<rparr>)"
    using assms by (intro destroy_n_char) auto
  have w: "wipe cs 0 m = replicate cap Raw"
    using assms wipe_all[of m cs] by simp
  have sw: "RawMemory_Swap \<lparr>buffer_m = Ptr (Some a) 0, capacity_m = cap\<rparr> new_data =
      (new_data, \<lparr>buffer_m = Ptr (Some a) 0, capacity_m = cap\<rparr>)"
    by (cases new_data) (simp add: RawMemory_Swap_def)
  show ?thesis
    using assms
    by (simp add: bind_def GetAddress_def d w sw put_vec_def RawMemory_dtor_def Deallocate_block)
qed

subsection \<open>Reserve\<close>

lemma finish_relocation0:
  assumes "blocks w a = Some cs" "length cs = cap" "m \<le> cap"
          "\<forall>p. p < m \<longrightarrow> is_live (cs ! p)" "\<forall>p. m \<le> p \<and> p < cap \<longrightarrow> cs ! p = Raw"
          "data_m v = \<lparr>buffer_m = Ptr (Some a) 0, capacity_m = cap\<rparr>"
  shows "bind (destroy_n (GetAddress (data_m v)) m) (\<lambda>_.
            case RawMemory_Swap (data_m v) new_data of
              (d, new_data') \<Rightarrow>
                bind (put_vec this (v\<lparr>data_m := d\<rparr>)) (\<lambda>_. RawMemory_dtor new_data')) w =
         (Inr (), w\<lparr>vectors := (vectors w)(this := v\<lparr>data_m := new_data\<rparr>),
                blocks := (blocks w)(a := None)\<rparr>)"
proof -
  have d: "destroy_n (Ptr (Some a) 0) m w = (Inr (), w\<lparr>blocks := (blocks w)(a \<mapsto> wipe cs 0 m)\<rparr>)"
    using assms by (intro destroy_n_char) auto
  have w: "wipe cs 0 m = replicate cap Raw"
    using assms wipe_all[of m cs] by simp
  have sw: "RawMemory_Swap \<lparr>buffer_m = Ptr (Some a) 0, capacity_m = cap\<rparr> new_data =
      (new_data, \<lparr>buffer_m = Ptr (Some a) 0, capacity_m = cap\<rparr>)"
    by (cases new_data) (simp add: RawMemory_Swap_def)
  show ?thesis
    using assms
    by (simp add: bind_def GetAddress_def d w sw put_vec_def RawMemory_dtor_def Deallocate_block)
qed

text \<open>What a sequence with a buffer looks like.\<close>

lemma vec_holds_block:
  assumes "vec_holds w this xs cap" "cap \<noteq> 0"
  obtains a where "data_m (vectors w this) = \<lparr>buffer_m = Ptr (Some a) 0, capacity_m = cap\<rparr>"
    "blocks w a = Some (cells_of xs cap)" "size_m (vectors w this) = length xs" "length xs \<le> cap"
proof -
  obtain b i where p: "buffer_m (data_m (vectors w this)) = Ptr b i"
    by (cases "buffer_m (data_m (vectors w this))") auto
  with assms obtain a where a: "b = Some a" "i = 0" "blocks w a = Some (cells_of xs cap)"
    by (cases b) (auto simp: vec_holds_def)
  have "data_m (vectors w this) = \<lparr>buffer_m = Ptr (Some a) 0, capacity_m = cap\<rparr>"
    using assms p a by (cases "data_m (vectors w this)") (auto simp: vec_holds_def)
  then show ?thesis using that a assms by (auto simp: vec_holds_def)
qed

lemma vec_holds_null:
  assumes "vec_holds w this xs 0"
  shows "data_m (vectors w this) = \<lparr>buffer_m = Ptr None 0, capacity_m = 0\<rparr>"
    "size_m (vectors w this) = 0" "xs = []"
  using assms
  by (cases "data_m (vectors w this)"; cases "buffer_m (data_m (vectors w this))";
      auto simp: vec_holds_def split: option.splits)+

lemma live_cells_of: "length xs \<le> cap \<Longrightarrow> p < length xs \<Longrightarrow> is_live (cells_of xs cap ! p)"
  by (simp add: nth_cells_of)

lemma raw_cells_of: "length xs \<le> cap \<Longrightarrow> length xs \<le> p \<Longrightarrow> p < cap \<Longrightarrow> cells_of xs cap ! p = Raw"
  by (simp add: nth_cells_of)

lemma cells_of_grow: "length xs \<le> n \<Longrightarrow> map Live xs @ drop (length xs) (replicate n Raw) = cells_of xs n"
  by (simp add: cells_of_def)

text \<open>Reserve beyond the capacity of a sequence that has a buffer, when relocation copies.\<close>

lemma Reserve_grow_copy:
  assumes h: "vec_holds w this xs cap" and fr: "fresh_next w" and n: "cap < n" and c: "cap \<noteq> 0"
      and pol: "\<not> nothrow_move_constructible T" "copy_constructible T"
      and buf: "buffer_m (data_m (vectors w this)) = Ptr (Some a) 0"
      and fit: "fits T n"
  shows "Reserve T this n w =
     (if \<not> survive (Suc 0) (fault w) then (Inl AllocationFailure, w\<lparr>fault := None\<rparr>)
      else if \<not> survive (length xs) (spend (Suc 0) (fault w))
      then (Inl (ElementFailure CopyConstruct), w\<lparr>next_block := Suc (next_block w), fault := None\<rparr>)
      else (Inr (), w\<lparr>vectors := (vectors w)(this :=
                         \<lparr>data_m = \<lparr>buffer_m = Ptr (Some (next_block w)) 0, capacity_m = n\<rparr>,
                          size_m = length xs\<rparr>),
                      blocks := (blocks w)(next_block w \<mapsto> cells_of xs n, a := None),
                      next_block := Suc (next_block w),
                      fault := spend (length xs) (spend (Suc 0) (fault w))\<rparr>))"
proof -
  from h c buf have v: "data_m (vectors w this) = \<lparr>buffer_m = Ptr (Some a) 0, capacity_m = cap\<rparr>"
    and ba: "blocks w a = Some (cells_of xs cap)" and sz: "size_m (vectors w this) = length xs"
    and le: "length xs \<le> cap"
    by (auto elim!: vec_holds_block)
  let ?nb = "next_block w"
  have ne: "a \<noteq> ?nb" using fr ba by (auto simp: fresh_next_def)
  have n0: "n \<noteq> 0" using n by simp
  let ?w1 = "w\<lparr>blocks := (blocks w)(?nb \<mapsto> replicate n Raw), next_block := Suc ?nb,
               fault := spend (Suc 0) (fault w)\<rparr>"
  have cp: "uninitialized_copy_n (Ptr (Some a) 0) (length xs) (Ptr (Some ?nb) 0) ?w1 =
     (if survive (length xs) (fault ?w1)
      then (Inr (), ?w1\<lparr>blocks := (blocks ?w1)(?nb \<mapsto> blit (cells_of xs cap) 0 (length xs) (replicate n Raw) 0),
                       fault := spend (length xs) (fault ?w1)\<rparr>)
      else (Inl (ElementFailure CopyConstruct), ?w1\<lparr>fault := None\<rparr>))"
    using ba ne le n by (intro uninitialized_copy_n_char) (auto simp: live_cells_of)
  have bl: "blit (cells_of xs cap) 0 (length xs) (replicate n Raw) 0 = cells_of xs n"
    using le n blit_cells_of[of xs cap "replicate n Raw"] by (simp add: cells_of_def[of xs n])
  let ?w2 = "w\<lparr>blocks := (blocks w)(?nb \<mapsto> cells_of xs n), next_block := Suc ?nb,
               fault := spend (length xs) (spend (Suc 0) (fault w))\<rparr>"
  have cp': "uninitialized_copy_n (Ptr (Some a) 0) (length xs) (Ptr (Some ?nb) 0) ?w1 =
     (if survive (length xs) (spend (Suc 0) (fault w)) then (Inr (), ?w2)
      else (Inl (ElementFailure CopyConstruct), ?w1\<lparr>fault := None\<rparr>))"
    using cp by (simp add: bl)
  have fin: "bind (destroy_n (GetAddress (data_m (vectors w this))) (length xs)) (\<lambda>_.
            case RawMemory_Swap (data_m (vectors w this)) \<lparr>buffer_m = Ptr (Some ?nb) 0, capacity_m = n\<rparr> of
              (d, new_data') \<Rightarrow>
                bind (put_vec this ((vectors w this)\<lparr>data_m := d\<rparr>)) (\<lambda>_. RawMemory_dtor new_data')) ?w2 =
         (Inr (), ?w2\<lparr>vectors := (vectors ?w2)(this := (vectors w this)\<lparr>data_m := \<lparr>buffer_m = Ptr (Some ?nb) 0, capacity_m = n\<rparr>\<rparr>),
                blocks := (blocks ?w2)(a := None)\<rparr>)"
    using ba ne le v by (intro finish_relocation0[where cs = "cells_of xs cap" and cap = cap])
      (auto simp: live_cells_of raw_cells_of)
  have rel: "Deallocate (Ptr (Some ?nb) 0)
       (w\<lparr>blocks := (blocks w)(?nb \<mapsto> replicate n Raw), next_block := Suc ?nb, fault := None\<rparr>) =
      (Inr (), w\<lparr>next_block := Suc ?nb, fault := None\<rparr>)"
    using fr by (subst Deallocate_block[where cs = "replicate n Raw"]) (auto simp: fresh_next_def fun_upd_idem)
  have vv: "(vectors w this)\<lparr>data_m := \<lparr>buffer_m = Ptr (Some ?nb) 0, capacity_m = n\<rparr>\<rparr> =
     \<lparr>data_m = \<lparr>buffer_m = Ptr (Some ?nb) 0, capacity_m = n\<rparr>, size_m = length xs\<rparr>"
    using sz by (cases "vectors w this") simp
  show ?thesis
    using n pol v sz fin
    by (simp add: Reserve_def bind_def[of "get_vec this"] get_vec_def RawMemory_Capacity_def
          bind_def[of "RawMemory_ctor T n"] RawMemory_ctor_char[OF n0 fit] try_catch_def
          CopyMoveConstruct_def GetAddress_def bind_def[of "uninitialized_copy_n _ _ _"] cp'
          RawMemory_dtor_def bind_def[of "Deallocate _"] rel throw_def vv fun_upd_twist[OF ne])
qed

lemma live_vacate_cells_of:
  "length xs \<le> cap \<Longrightarrow> p < length xs \<Longrightarrow> is_live (vacate f (cells_of xs cap) 0 (length xs) ! p)"
  by (simp add: nth_vacate nth_cells_of)

lemma raw_vacate_cells_of:
  "length xs \<le> cap \<Longrightarrow> length xs \<le> p \<Longrightarrow> p < cap \<Longrightarrow>
   vacate f (cells_of xs cap) 0 (length xs) ! p = Raw"
  by (simp add: nth_vacate nth_cells_of)

text \<open>Reserve beyond the capacity of a sequence that has a buffer, when relocation moves.\<close>

lemma Reserve_grow_move:
  assumes h: "vec_holds w this xs cap" and fr: "fresh_next w" and n: "cap < n" and c: "cap \<noteq> 0"
      and pol: "nothrow_move_constructible T \<or> \<not> copy_constructible T"
      and buf: "buffer_m (data_m (vectors w this)) = Ptr (Some a) 0"
      and fit: "fits T n"
  shows "(if \<not> survive (Suc 0) (fault w)
          then Reserve T this n w = (Inl AllocationFailure, w\<lparr>fault := None\<rparr>)
          else if survive (move_cost T (length xs)) (spend (Suc 0) (fault w))
          then Reserve T this n w =
            (Inr (), w\<lparr>vectors := (vectors w)(this :=
                         \<lparr>data_m = \<lparr>buffer_m = Ptr (Some (next_block w)) 0, capacity_m = n\<rparr>,
                          size_m = length xs\<rparr>),
                      blocks := (blocks w)(next_block w \<mapsto> cells_of xs n, a := None),
                      next_block := Suc (next_block w),
                      fault := spend (move_cost T (length xs)) (spend (Suc 0) (fault w))\<rparr>)
          else isl (fst (Reserve T this n w)))"
proof -
  from h c buf have v: "data_m (vectors w this) = \<lparr>buffer_m = Ptr (Some a) 0, capacity_m = cap\<rparr>"
    and ba: "blocks w a = Some (cells_of xs cap)" and sz: "size_m (vectors w this) = length xs"
    and le: "length xs \<le> cap"
    by (auto elim!: vec_holds_block)
  let ?nb = "next_block w"
  let ?f = "moved_from T"
  let ?c = "move_cost T (length xs)"
  have ne: "a \<noteq> ?nb" using fr ba by (auto simp: fresh_next_def)
  have n0: "n \<noteq> 0" using n by simp
  let ?w1 = "w\<lparr>blocks := (blocks w)(?nb \<mapsto> replicate n Raw), next_block := Suc ?nb,
               fault := spend (Suc 0) (fault w)\<rparr>"
  have mv: "(if survive ?c (fault ?w1)
          then uninitialized_move_n T (Ptr (Some a) 0) (length xs) (Ptr (Some ?nb) 0) ?w1 =
            (Inr (), ?w1\<lparr>blocks := (blocks ?w1)(a \<mapsto> vacate ?f (cells_of xs cap) 0 (length xs),
                           ?nb \<mapsto> blit (cells_of xs cap) 0 (length xs) (replicate n Raw) 0),
                      fault := spend ?c (fault ?w1)\<rparr>)
          else isl (fst (uninitialized_move_n T (Ptr (Some a) 0) (length xs) (Ptr (Some ?nb) 0) ?w1)))"
    using ba ne le n by (intro uninitialized_move_n_char) (auto simp: live_cells_of)
  have bl: "blit (cells_of xs cap) 0 (length xs) (replicate n Raw) 0 = cells_of xs n"
    using le n blit_cells_of[of xs cap "replicate n Raw"] by (simp add: cells_of_def[of xs n])
  let ?w2 = "w\<lparr>blocks := (blocks w)(a \<mapsto> vacate ?f (cells_of xs cap) 0 (length xs), ?nb \<mapsto> cells_of xs n),
               next_block := Suc ?nb, fault := spend ?c (spend (Suc 0) (fault w))\<rparr>"
  have fin: "bind (destroy_n (GetAddress (data_m (vectors w this))) (length xs)) (\<lambda>_.
            case RawMemory_Swap (data_m (vectors w this)) \<lparr>buffer_m = Ptr (Some ?nb) 0, capacity_m = n\<rparr> of
              (d, new_data') \<Rightarrow>
                bind (put_vec this ((vectors w this)\<lparr>data_m := d\<rparr>)) (\<lambda>_. RawMemory_dtor new_data')) ?w2 =
         (Inr (), ?w2\<lparr>vectors := (vectors ?w2)(this := (vectors w this)\<lparr>data_m := \<lparr>buffer_m = Ptr (Some ?nb) 0, capacity_m = n\<rparr>\<rparr>),
                blocks := (blocks ?w2)(a := None)\<rparr>)"
    using ba ne le v
    by (intro finish_relocation0[where cs = "vacate ?f (cells_of xs cap) 0 (length xs)" and cap = cap])
       (auto simp: live_vacate_cells_of raw_vacate_cells_of)
  have vv: "(vectors w this)\<lparr>data_m := \<lparr>buffer_m = Ptr (Some ?nb) 0, capacity_m = n\<rparr>\<rparr> =
     \<lparr>data_m = \<lparr>buffer_m = Ptr (Some ?nb) 0, capacity_m = n\<rparr>, size_m = length xs\<rparr>"
    using sz by (cases "vectors w this") simp
  have unf: "Reserve T this n w =
     (case RawMemory_ctor T n w of
        (Inl e, w') \<Rightarrow> (Inl e, w')
      | (Inr new_data, w') \<Rightarrow>
          try_catch
           (bind (uninitialized_move_n T (Ptr (Some a) 0) (length xs) (buffer_m new_data)) (\<lambda>_.
            bind (destroy_n (Ptr (Some a) 0) (length xs)) (\<lambda>_.
            case RawMemory_Swap \<lparr>buffer_m = Ptr (Some a) 0, capacity_m = cap\<rparr> new_data of
              (d, new_data') \<Rightarrow>
                bind (put_vec this ((vectors w this)\<lparr>data_m := d\<rparr>)) (\<lambda>_.
                RawMemory_dtor new_data'))))
           (\<lambda>e. bind (RawMemory_dtor new_data) (\<lambda>_. throw e)) w')"
    using n pol v sz
    by (simp add: Reserve_def bind_def[of "get_vec this"] get_vec_def RawMemory_Capacity_def
          bind_def[of "RawMemory_ctor T n"] CopyMoveConstruct_def GetAddress_def)
  have fin': "bind (destroy_n (Ptr (Some a) 0) (length xs)) (\<lambda>_.
            case RawMemory_Swap \<lparr>buffer_m = Ptr (Some a) 0, capacity_m = cap\<rparr> \<lparr>buffer_m = Ptr (Some ?nb) 0, capacity_m = n\<rparr> of
              (d, new_data') \<Rightarrow>
                bind (put_vec this ((vectors w this)\<lparr>data_m := d\<rparr>)) (\<lambda>_. RawMemory_dtor new_data')) ?w2 =
         (Inr (), ?w2\<lparr>vectors := (vectors ?w2)(this := (vectors w this)\<lparr>data_m := \<lparr>buffer_m = Ptr (Some ?nb) 0, capacity_m = n\<rparr>\<rparr>),
                blocks := (blocks ?w2)(a := None)\<rparr>)"
    using fin by (simp add: v GetAddress_def)
  show ?thesis
  proof (cases "survive (Suc 0) (fault w)")
    case False
    then show ?thesis by (simp add: unf RawMemory_ctor_char[OF n0 fit])
  next
    case s1: True
    show ?thesis
    proof (cases "survive ?c (spend (Suc 0) (fault w))")
      case True
      with mv have "uninitialized_move_n T (Ptr (Some a) 0) (length xs) (Ptr (Some ?nb) 0) ?w1 = (Inr (), ?w2)"
        by (simp add: bl)
      then show ?thesis
        using s1 True fin'
        by (simp add: unf RawMemory_ctor_char[OF n0 fit] try_catch_def
              bind_def[of "uninitialized_move_n _ _ _ _"] vv fun_upd_twist[OF ne])
    next
      case False
      with mv have "isl (fst (uninitialized_move_n T (Ptr (Some a) 0) (length xs) (Ptr (Some ?nb) 0) ?w1))"
        by simp
      then obtain e w2 where "uninitialized_move_n T (Ptr (Some a) 0) (length xs) (Ptr (Some ?nb) 0) ?w1 = (Inl e, w2)"
        by (metis prod.collapse isl_def)
      then show ?thesis
        using s1 False
        by (simp add: unf RawMemory_ctor_char[OF n0 fit] try_catch_def GetAddress_def
              bind_def throw_def split: prod.splits sum.splits)
    qed
  qed
qed

text \<open>Reserve on a sequence without a buffer.\<close>

lemma Reserve_null:
  assumes h: "vec_holds w this xs 0" and n: "0 < n" and fit: "fits T n"
  shows "Reserve T this n w =
     (if survive (Suc 0) (fault w)
      then (Inr (), w\<lparr>vectors := (vectors w)(this :=
                         \<lparr>data_m = \<lparr>buffer_m = Ptr (Some (next_block w)) 0, capacity_m = n\<rparr>,
                          size_m = 0\<rparr>),
                      blocks := (blocks w)(next_block w \<mapsto> replicate n Raw),
                      next_block := Suc (next_block w),
                      fault := spend (Suc 0) (fault w)\<rparr>)
      else (Inl AllocationFailure, w\<lparr>fault := None\<rparr>))"
proof -
  note v = vec_holds_null[OF h]
  have n0: "n \<noteq> 0" using n by simp
  have vv: "(vectors w this)\<lparr>data_m := \<lparr>buffer_m = Ptr (Some (next_block w)) 0, capacity_m = n\<rparr>\<rparr> =
     \<lparr>data_m = \<lparr>buffer_m = Ptr (Some (next_block w)) 0, capacity_m = n\<rparr>, size_m = 0\<rparr>"
    using v by (cases "vectors w this") simp
  show ?thesis
    using n v
    by (simp add: Reserve_def bind_def get_vec_def RawMemory_Capacity_def
          RawMemory_ctor_char[OF n0 fit] try_catch_def CopyMoveConstruct_def GetAddress_def ret_def
          RawMemory_Swap_def put_vec_def RawMemory_dtor_def Deallocate_null vv)
qed

lemma vec_holds_cong:
  "vectors w' = vectors w \<Longrightarrow> blocks w' = blocks w \<Longrightarrow> vec_holds w' this xs cap = vec_holds w this xs cap"
  by (auto simp: vec_holds_def split: ptr.splits option.splits)

lemma vec_holds_fresh_buffer:
  assumes "vectors w' this = \<lparr>data_m = \<lparr>buffer_m = Ptr (Some b) 0, capacity_m = n\<rparr>, size_m = length xs\<rparr>"
          "blocks w' b = Some (cells_of xs n)" "length xs \<le> n" "n \<noteq> 0"
  shows "vec_holds w' this xs n"
  using assms by (simp add: vec_holds_def)

text \<open>
  A relocation by a move constructor that throws: the \<open>k\<close> objects moved before the throw
  stay moved from, those constructed in the destination are destroyed.
\<close>

lemma uninitialized_move_n_throw:
  assumes "blocks w a = Some src" "blocks w b = Some dst" "a \<noteq> b"
          "i + n \<le> length src" "j + n \<le> length dst"
          "\<forall>p. i \<le> p \<and> p < i + n \<longrightarrow> is_live (src ! p)"
          "\<forall>p. j \<le> p \<and> p < j + n \<longrightarrow> dst ! p = Raw"
          "\<not> nothrow_move_constructible T" "fault w = Some k" "k < n"
  shows "uninitialized_move_n T (Ptr (Some a) i) n (Ptr (Some b) j) w =
     (Inl (ElementFailure MoveConstruct),
      w\<lparr>blocks := (blocks w)(a \<mapsto> vacate (moved_from T) src i k), fault := None\<rparr>)"
  using assms
proof (induction n arbitrary: w i j src dst k)
  case 0
  then show ?case by simp
next
  case (Suc n)
  from Suc.prems obtain x where x: "src ! i = Live x"
    using live_cell[of "src ! i"] by auto
  have raw: "dst ! j = Raw" using Suc.prems by simp
  let ?f = "moved_from T"
  let ?src1 = "src[i := Live (?f x)]"
  let ?dst1 = "dst[j := Live x]"
  have cost: "move_cost T (Suc 0) = Suc 0" using Suc.prems by (simp add: move_cost_def)
  have mc: "move_construct T (Ptr (Some b) j) (Ptr (Some a) i) w =
     (if survive (Suc 0) (fault w)
      then (Inr (), w\<lparr>blocks := (blocks w)(a \<mapsto> ?src1, b \<mapsto> ?dst1),
                      fault := spend (Suc 0) (fault w)\<rparr>)
      else (Inl (ElementFailure MoveConstruct), w\<lparr>fault := None\<rparr>))"
    using Suc.prems x raw move_construct_char[where w = w and a = a and b = b and src = src
        and dst = dst and i = i and j = j and x = x and T = T]
    by (simp add: cost)
  show ?case
  proof (cases k)
    case 0
    have idem: "(blocks w)(a \<mapsto> src) = blocks w" using Suc.prems by (simp add: fun_upd_idem)
    from 0 Suc.prems show ?thesis by (simp add: mc bind_def idem)
  next
    case k: (Suc k')
    let ?w1 = "w\<lparr>blocks := (blocks w)(a \<mapsto> ?src1, b \<mapsto> ?dst1), fault := Some k'\<rparr>"
    let ?V = "vacate ?f ?src1 (Suc i) k'"
    have mc': "move_construct T (Ptr (Some b) j) (Ptr (Some a) i) w = (Inr (), ?w1)"
      using k Suc.prems by (simp add: mc)
    have IH: "uninitialized_move_n T (Ptr (Some a) (Suc i)) n (Ptr (Some b) (Suc j)) ?w1 =
       (Inl (ElementFailure MoveConstruct),
        ?w1\<lparr>blocks := (blocks ?w1)(a \<mapsto> ?V), fault := None\<rparr>)"
      using Suc.prems k
      by (intro Suc.IH[where dst = ?dst1 and src = ?src1]) (auto simp: nth_list_update)
    have 1: "dst[j := Raw] = dst" using raw by (metis list_update_id)
    let ?w2 = "w\<lparr>blocks := (blocks w)(b \<mapsto> ?dst1, a \<mapsto> ?V), fault := None\<rparr>"
    have d: "destroy_at (Ptr (Some b) j) ?w2 =
        (Inr (), ?w2\<lparr>blocks := (blocks ?w2)(b \<mapsto> ?dst1[j := Raw])\<rparr>)"
      using Suc.prems by (intro destroy_at_Live[where y = x]) auto
    have e: "(blocks w)(b \<mapsto> dst, a \<mapsto> ?V) = (blocks w)(a \<mapsto> ?V)"
      using Suc.prems(2,3) by (auto simp: fun_eq_iff)
    have e': "(blocks w)(b \<mapsto> ?dst1, a \<mapsto> ?V, b \<mapsto> dst) = (blocks w)(a \<mapsto> ?V)"
      using Suc.prems(2,3) by (auto simp: fun_eq_iff)
    have rollback: "destroy_at (Ptr (Some b) j) ?w2 =
        (Inr (), w\<lparr>blocks := (blocks w)(a \<mapsto> ?V), fault := None\<rparr>)"
      unfolding d by (simp add: 1 e e')
    have v: "vacate ?f src i (Suc k') = ?V" by (simp add: x)
    show ?thesis
      unfolding k v
      by (simp add: mc' IH rollback bind_def try_catch_def throw_def) (simp add: fun_upd_def)
  qed
qed

lemma vacate_cells_of:
  assumes "length xs \<le> cap" "k \<le> length xs"
  shows "vacate (moved_from T) (cells_of xs cap) 0 k = cells_of (moved_prefix T k xs) cap"
proof (rule nth_equalityI)
  show "length (vacate (moved_from T) (cells_of xs cap) 0 k) = length (cells_of (moved_prefix T k xs) cap)"
    using assms by (simp add: moved_prefix_def)
next
  fix p assume "p < length (vacate (moved_from T) (cells_of xs cap) 0 k)"
  then have p: "p < cap" using assms by simp
  show "vacate (moved_from T) (cells_of xs cap) 0 k ! p = cells_of (moved_prefix T k xs) cap ! p"
    using assms p
    by (simp add: nth_vacate nth_cells_of moved_prefix_def nth_append min_def)
qed

text \<open>Reserve when the move of element \<open>k\<close> throws.\<close>

lemma Reserve_move_throw:
  assumes h: "vec_holds w this xs cap" and fr: "fresh_next w" and n: "cap < n" and c: "cap \<noteq> 0"
      and buf: "buffer_m (data_m (vectors w this)) = Ptr (Some a) 0"
      and fit: "fits T n"
      and nt: "\<not> nothrow_move_constructible T" and nc: "\<not> copy_constructible T"
      and f: "fault w = Some (Suc k)" and k: "k < length xs"
  shows "Reserve T this n w =
     (Inl (ElementFailure MoveConstruct),
      w\<lparr>blocks := (blocks w)(a \<mapsto> cells_of (moved_prefix T k xs) cap),
        next_block := Suc (next_block w), fault := None\<rparr>)"
proof -
  from h c buf have v: "data_m (vectors w this) = \<lparr>buffer_m = Ptr (Some a) 0, capacity_m = cap\<rparr>"
    and ba: "blocks w a = Some (cells_of xs cap)" and sz: "size_m (vectors w this) = length xs"
    and le: "length xs \<le> cap"
    by (auto elim!: vec_holds_block)
  let ?nb = "next_block w"
  let ?V = "vacate (moved_from T) (cells_of xs cap) 0 k"
  have ne: "a \<noteq> ?nb" using fr ba by (auto simp: fresh_next_def)
  have n0: "n \<noteq> 0" using n by simp
  let ?w1 = "w\<lparr>blocks := (blocks w)(?nb \<mapsto> replicate n Raw), next_block := Suc ?nb,
               fault := Some k\<rparr>"
  let ?w2 = "w\<lparr>blocks := (blocks w)(?nb \<mapsto> replicate n Raw, a \<mapsto> ?V), next_block := Suc ?nb,
               fault := None\<rparr>"
  have ct: "RawMemory_ctor T n w = (Inr \<lparr>buffer_m = Ptr (Some ?nb) 0, capacity_m = n\<rparr>, ?w1)"
    using f by (simp add: RawMemory_ctor_char[OF n0 fit])
  have "uninitialized_move_n T (Ptr (Some a) 0) (length xs) (Ptr (Some ?nb) 0) ?w1 =
     (Inl (ElementFailure MoveConstruct),
      ?w1\<lparr>blocks := (blocks ?w1)(a \<mapsto> ?V), fault := None\<rparr>)"
    using ba ne le n k nt
    by (intro uninitialized_move_n_throw[where dst = "replicate n Raw"]) (auto simp: live_cells_of)
  then have mv: "uninitialized_move_n T (Ptr (Some a) 0) (length xs) (Ptr (Some ?nb) 0) ?w1 =
     (Inl (ElementFailure MoveConstruct), ?w2)"
    by simp
  have e: "(blocks w)(?nb \<mapsto> replicate n Raw, a \<mapsto> ?V, ?nb := None) = (blocks w)(a \<mapsto> ?V)"
    using fr ne by (auto simp: fun_eq_iff fresh_next_def)
  have rel: "Deallocate (Ptr (Some ?nb) 0) ?w2 =
      (Inr (), w\<lparr>blocks := (blocks w)(a \<mapsto> ?V), next_block := Suc ?nb, fault := None\<rparr>)"
    using ne by (subst Deallocate_block[where cs = "replicate n Raw"]) (auto simp: e)
  have unf: "Reserve T this n w =
     (case RawMemory_ctor T n w of
        (Inl e, w') \<Rightarrow> (Inl e, w')
      | (Inr new_data, w') \<Rightarrow>
          try_catch
           (bind (uninitialized_move_n T (Ptr (Some a) 0) (length xs) (buffer_m new_data)) (\<lambda>_.
            bind (destroy_n (Ptr (Some a) 0) (length xs)) (\<lambda>_.
            case RawMemory_Swap \<lparr>buffer_m = Ptr (Some a) 0, capacity_m = cap\<rparr> new_data of
              (d, new_data') \<Rightarrow>
                bind (put_vec this ((vectors w this)\<lparr>data_m := d\<rparr>)) (\<lambda>_.
                RawMemory_dtor new_data'))))
           (\<lambda>e. bind (RawMemory_dtor new_data) (\<lambda>_. throw e)) w')"
    using n nc v sz
    by (simp add: Reserve_def bind_def[of "get_vec this"] get_vec_def RawMemory_Capacity_def
          bind_def[of "RawMemory_ctor T n"] CopyMoveConstruct_def GetAddress_def)
  have vc: "?V = cells_of (moved_prefix T k xs) cap"
    using le k by (intro vacate_cells_of) auto
  show ?thesis
    unfolding vc[symmetric]
    by (simp add: unf ct try_catch_def bind_def[of "uninitialized_move_n _ _ _ _"] mv
          RawMemory_dtor_def bind_def[of "Deallocate _"] rel throw_def)
qed

text \<open>
  Reserve when the byte count wraps to less than one cell: the first element is relocated
  past the end of the fresh allocation.
\<close>

lemma Reserve_wraps:
  assumes h: "vec_holds w this (x # xs) cap" and fr: "fresh_next w" and n: "cap < n"
      and z: "(n * sizeof_T T) mod size_limit div sizeof_T T = 0"
      and nt: "nothrow_move_constructible T" and f: "fault w = None"
  shows "fst (Reserve T this n w) = Inl (InvalidAccess (Ptr (Some (next_block w)) 0))"
proof -
  have c: "cap \<noteq> 0" using h by (auto simp: vec_holds_def)
  with h obtain a where v: "data_m (vectors w this) = \<lparr>buffer_m = Ptr (Some a) 0, capacity_m = cap\<rparr>"
    and ba: "blocks w a = Some (cells_of (x # xs) cap)"
    and sz: "size_m (vectors w this) = length (x # xs)"
    by (elim vec_holds_block) auto
  let ?nb = "next_block w"
  let ?w1 = "w\<lparr>blocks := (blocks w)(?nb \<mapsto> []), next_block := Suc ?nb\<rparr>"
  have ne: "a \<noteq> ?nb" using fr ba by (auto simp: fresh_next_def)
  have n0: "n \<noteq> 0" using n by simp
  have ct: "RawMemory_ctor T n w = (Inr \<lparr>buffer_m = Ptr (Some ?nb) 0, capacity_m = n\<rparr>, ?w1)"
    using n0 by (simp add: RawMemory_ctor_def Allocate_def operator_new_def bind_def may_fail_def f z ret_def)
  have ld: "load (Ptr (Some a) 0) ?w1 = (Inr x, ?w1)"
    using ba ne by (intro load_Live[where cs = "cells_of (x # xs) cap"]) (auto simp: cells_of_def)
  have pl: "place (Ptr (Some ?nb) 0) x ?w1 = (Inl (InvalidAccess (Ptr (Some ?nb) 0)), ?w1)"
    by (simp add: place_def cell_at_def)
  have mc: "move_construct T (Ptr (Some ?nb) 0) (Ptr (Some a) 0) ?w1 =
      (Inl (InvalidAccess (Ptr (Some ?nb) 0)), ?w1)"
    by (simp add: move_construct_def bind_def ld nt ret_def pl)
  show ?thesis
    using n nt v sz
    by (simp add: Reserve_def bind_def get_vec_def RawMemory_Capacity_def
          ct CopyMoveConstruct_def GetAddress_def try_catch_def mc)
qed

subsection \<open>EmplaceBack\<close>

lemma CopyMoveConstruct_char:
  assumes "blocks w a = Some src" "blocks w b = Some dst" "a \<noteq> b"
          "n \<le> length src" "n \<le> length dst"
          "\<forall>p. p < n \<longrightarrow> is_live (src ! p)" "\<forall>p. p < n \<longrightarrow> dst ! p = Raw"
  shows "(if survive (move_cost T n) (fault w)
          then CopyMoveConstruct T (Ptr (Some a) 0) (Ptr (Some b) 0) n w =
            (Inr (), w\<lparr>blocks := (blocks w)(a \<mapsto> origin_after T src n, b \<mapsto> blit src 0 n dst 0),
                      fault := spend (move_cost T n) (fault w)\<rparr>)
          else isl (fst (CopyMoveConstruct T (Ptr (Some a) 0) (Ptr (Some b) 0) n w)))"
proof (cases "nothrow_move_constructible T \<or> \<not> copy_constructible T")
  case True
  then show ?thesis
    using uninitialized_move_n_char[where w=w and a=a and src=src and b=b and dst=dst and i=0 and j=0 and n=n and T=T] assms
    by (simp add: CopyMoveConstruct_def origin_after_def)
next
  case False
  then have c: "move_cost T n = n" by (simp add: move_cost_def)
  have i: "(blocks w)(a \<mapsto> src) = blocks w" using assms by (simp add: fun_upd_idem)
  from False show ?thesis
    using uninitialized_copy_n_char[where w=w and a=a and src=src and b=b and dst=dst and i=0 and j=0 and n=n] assms
    by (simp add: CopyMoveConstruct_def origin_after_def c i)
qed

lemma origin_after_props:
  assumes "length xs \<le> cap"
  shows "length (origin_after T (cells_of xs cap) (length xs)) = cap"
    and "p < length xs \<Longrightarrow> is_live (origin_after T (cells_of xs cap) (length xs) ! p)"
    and "length xs \<le> p \<Longrightarrow> p < cap \<Longrightarrow> origin_after T (cells_of xs cap) (length xs) ! p = Raw"
  using assms by (simp_all add: origin_after_def nth_vacate nth_cells_of)

lemma blit_cells_of_snoc:
  assumes "length xs \<le> cap" "length xs < n"
  shows "blit (cells_of xs cap) 0 (length xs) ((replicate n Raw)[length xs := Live x]) 0 =
           cells_of (xs @ [x]) n"
proof (rule nth_equalityI)
  show "length (blit (cells_of xs cap) 0 (length xs) ((replicate n Raw)[length xs := Live x]) 0) =
          length (cells_of (xs @ [x]) n)"
    using assms by simp
next
  fix p assume "p < length (blit (cells_of xs cap) 0 (length xs) ((replicate n Raw)[length xs := Live x]) 0)"
  then have "p < n" by simp
  then show "blit (cells_of xs cap) 0 (length xs) ((replicate n Raw)[length xs := Live x]) 0 ! p =
          cells_of (xs @ [x]) n ! p"
    using assms by (auto simp: nth_blit nth_cells_of nth_append nth_list_update)
qed

lemma cells_of_snoc:
  assumes "length xs < cap"
  shows "(cells_of xs cap)[length xs := Live x] = cells_of (xs @ [x]) cap"
proof (rule nth_equalityI)
  show "length ((cells_of xs cap)[length xs := Live x]) = length (cells_of (xs @ [x]) cap)"
    using assms by simp
next
  fix p assume "p < length ((cells_of xs cap)[length xs := Live x])"
  then have "p < cap" using assms by simp
  then show "(cells_of xs cap)[length xs := Live x] ! p = cells_of (xs @ [x]) cap ! p"
    using assms by (auto simp: nth_cells_of nth_append nth_list_update)
qed

lemma construct_at_char:
  assumes "blocks w a = Some cs" "i < length cs" "cs ! i = Raw"
  shows "construct_at (Ptr (Some a) i) x w =
     (if survive (Suc 0) (fault w)
      then (Inr (), w\<lparr>blocks := (blocks w)(a \<mapsto> cs[i := Live x]), fault := spend (Suc 0) (fault w)\<rparr>)
      else (Inl (ElementFailure Construct), w\<lparr>fault := None\<rparr>))"
  using assms by (simp add: construct_at_def bind_def may_fail_char place_Raw)

text \<open>EmplaceBack with room left.\<close>

lemma EmplaceBack_in_place:
  assumes h: "vec_holds w this xs cap" and lt: "length xs < cap"
  shows "\<exists>a. buffer_m (data_m (vectors w this)) = Ptr (Some a) 0 \<and>
     EmplaceBack T this x w =
     (if survive (Suc 0) (fault w)
      then (Inr (Ptr (Some a) (length xs)),
            w\<lparr>vectors := (vectors w)(this := (vectors w this)\<lparr>size_m := Suc (length xs)\<rparr>),
              blocks := (blocks w)(a \<mapsto> cells_of (xs @ [x]) cap),
              fault := spend (Suc 0) (fault w)\<rparr>)
      else (Inl (ElementFailure Construct), w\<lparr>fault := None\<rparr>))"
proof -
  from lt have c: "cap \<noteq> 0" by simp
  from h c obtain a where v: "data_m (vectors w this) = \<lparr>buffer_m = Ptr (Some a) 0, capacity_m = cap\<rparr>"
    and ba: "blocks w a = Some (cells_of xs cap)" and sz: "size_m (vectors w this) = length xs"
    by (auto elim!: vec_holds_block)
  have ca: "construct_at (Ptr (Some a) (length xs)) x w =
     (if survive (Suc 0) (fault w)
      then (Inr (), w\<lparr>blocks := (blocks w)(a \<mapsto> cells_of (xs @ [x]) cap), fault := spend (Suc 0) (fault w)\<rparr>)
      else (Inl (ElementFailure Construct), w\<lparr>fault := None\<rparr>))"
    using ba lt construct_at_char[where w=w and a=a and cs="cells_of xs cap" and i="length xs" and x=x]
    by (simp add: raw_cells_of cells_of_snoc)
  have "EmplaceBack T this x w =
     (if survive (Suc 0) (fault w)
      then (Inr (Ptr (Some a) (length xs)),
            w\<lparr>vectors := (vectors w)(this := (vectors w this)\<lparr>size_m := Suc (length xs)\<rparr>),
              blocks := (blocks w)(a \<mapsto> cells_of (xs @ [x]) cap),
              fault := spend (Suc 0) (fault w)\<rparr>)
      else (Inl (ElementFailure Construct), w\<lparr>fault := None\<rparr>))"
    using lt v sz
    by (simp add: EmplaceBack_def bind_def get_vec_def Capacity_def RawMemory_Capacity_def
          RawMemory_plus_def ret_def ca put_vec_def)
  with v show ?thesis by simp
qed

lemma survive_Suc_Suc:
  "survive (Suc (Suc c)) f \<longleftrightarrow>
     survive (Suc 0) f \<and> survive (Suc 0) (spend (Suc 0) f) \<and> survive c (spend (Suc 0) (spend (Suc 0) f))"
  by (cases f) auto

lemma spend_Suc_Suc: "spend (Suc (Suc c)) f = spend c (spend (Suc 0) (spend (Suc 0) f))"
  by (cases f) auto

text \<open>EmplaceBack on a full sequence that has a buffer.\<close>

lemma EmplaceBack_grow:
  assumes h: "vec_holds w this xs cap" and fr: "fresh_next w" and full: "length xs = cap"
      and c: "cap \<noteq> 0" and buf: "buffer_m (data_m (vectors w this)) = Ptr (Some a) 0"
      and fit: "fits T (cap * 2)"
  shows "(if survive (Suc (Suc (move_cost T cap))) (fault w)
          then EmplaceBack T this x w =
            (Inr (Ptr (Some (next_block w)) cap),
             w\<lparr>vectors := (vectors w)(this :=
                  \<lparr>data_m = \<lparr>buffer_m = Ptr (Some (next_block w)) 0, capacity_m = cap * 2\<rparr>,
                   size_m = Suc cap\<rparr>),
               blocks := (blocks w)(next_block w \<mapsto> cells_of (xs @ [x]) (cap * 2), a := None),
               next_block := Suc (next_block w),
               fault := spend (Suc (Suc (move_cost T cap))) (fault w)\<rparr>)
          else isl (fst (EmplaceBack T this x w)))"
proof -
  from h c buf have v: "data_m (vectors w this) = \<lparr>buffer_m = Ptr (Some a) 0, capacity_m = cap\<rparr>"
    and ba: "blocks w a = Some (cells_of xs cap)" and sz: "size_m (vectors w this) = cap"
    using full by (auto elim!: vec_holds_block)
  let ?nb = "next_block w"
  let ?n = "cap * 2"
  let ?p = "Ptr (Some ?nb) cap"
  let ?tmp = "\<lparr>buffer_m = Ptr (Some ?nb) 0, capacity_m = ?n\<rparr>"
  have ne: "a \<noteq> ?nb" using fr ba by (auto simp: fresh_next_def)
  have n0: "?n \<noteq> 0" using c by simp
  let ?f1 = "spend (Suc 0) (fault w)"
  let ?f2 = "spend (Suc 0) ?f1"
  let ?f3 = "spend (move_cost T cap) ?f2"
  let ?w1 = "w\<lparr>blocks := (blocks w)(?nb \<mapsto> replicate ?n Raw), next_block := Suc ?nb, fault := ?f1\<rparr>"
  let ?d1 = "(replicate ?n Raw)[cap := Live x]"
  let ?w2 = "w\<lparr>blocks := (blocks w)(?nb \<mapsto> ?d1), next_block := Suc ?nb, fault := ?f2\<rparr>"
  let ?o = "origin_after T (cells_of xs cap) cap"
  let ?w3 = "w\<lparr>blocks := (blocks w)(a \<mapsto> ?o, ?nb \<mapsto> cells_of (xs @ [x]) ?n),
               next_block := Suc ?nb, fault := ?f3\<rparr>"
  have ct: "RawMemory_ctor T ?n w =
     (if survive (Suc 0) (fault w) then (Inr ?tmp, ?w1) else (Inl AllocationFailure, w\<lparr>fault := None\<rparr>))"
    by (simp add: RawMemory_ctor_char[OF n0 fit])
  have ca: "construct_at ?p x ?w1 =
     (if survive (Suc 0) ?f1 then (Inr (), ?w2)
      else (Inl (ElementFailure Construct), ?w1\<lparr>fault := None\<rparr>))"
    using c by (subst construct_at_char[where cs = "replicate ?n Raw"]) auto
  have rl: "(if survive (move_cost T cap) ?f2
          then CopyMoveConstruct T (Ptr (Some a) 0) (Ptr (Some ?nb) 0) cap ?w2 = (Inr (), ?w3)
          else isl (fst (CopyMoveConstruct T (Ptr (Some a) 0) (Ptr (Some ?nb) 0) cap ?w2)))"
    using CopyMoveConstruct_char[where w = ?w2 and a = a and b = ?nb and src = "cells_of xs cap"
        and dst = ?d1 and n = cap and T = T] ba ne c full
      blit_cells_of_snoc[where xs = xs and cap = cap and n = ?n and x = x]
    by (simp add: live_cells_of)
  have fin: "bind (destroy_n (GetAddress (data_m (vectors w this))) cap) (\<lambda>_.
            case RawMemory_Swap (data_m (vectors w this)) ?tmp of
              (d, tmp') \<Rightarrow>
                bind (put_vec this ((vectors w this)\<lparr>data_m := d\<rparr>)) (\<lambda>_.
                bind (RawMemory_dtor tmp') (\<lambda>_. ret ?p))) ?w3 =
         ret ?p (?w3\<lparr>vectors := (vectors ?w3)(this := (vectors w this)\<lparr>data_m := ?tmp\<rparr>),
                blocks := (blocks ?w3)(a := None)\<rparr>)"
    using ne v full origin_after_props[where xs = xs and cap = cap and T = T]
    by (intro finish_relocation[where cs = ?o and cap = cap]) auto
  have unf: "EmplaceBack T this x w =
     bind
      (bind (RawMemory_ctor T ?n) (\<lambda>tmp_mem.
          try_catch
            (bind (RawMemory_plus tmp_mem cap) (\<lambda>p.
             bind (construct_at p x) (\<lambda>_.
             bind (CopyMoveConstruct T (GetAddress (data_m (vectors w this))) (GetAddress tmp_mem) cap) (\<lambda>_.
             bind (destroy_n (GetAddress (data_m (vectors w this))) cap) (\<lambda>_.
             case RawMemory_Swap (data_m (vectors w this)) tmp_mem of
               (d, tmp_mem') \<Rightarrow>
                 bind (put_vec this ((vectors w this)\<lparr>data_m := d\<rparr>)) (\<lambda>_.
                 bind (RawMemory_dtor tmp_mem') (\<lambda>_.
                 ret p)))))))
            (\<lambda>e. bind (RawMemory_dtor tmp_mem) (\<lambda>_. throw e))))
       (\<lambda>p_empl_element.
     bind (get_vec this) (\<lambda>v'.
     bind (put_vec this (v'\<lparr>size_m := size_m v' + 1\<rparr>)) (\<lambda>_.
     ret p_empl_element))) w"
    using c sz v
    by (simp add: EmplaceBack_def bind_def[of "get_vec this" _ w] get_vec_def Capacity_def
          RawMemory_Capacity_def fits_lt[OF fit])
  have ga: "GetAddress (data_m (vectors w this)) = Ptr (Some a) 0" "GetAddress ?tmp = Ptr (Some ?nb) 0"
    using v by (simp_all add: GetAddress_def)
  have pl: "RawMemory_plus ?tmp cap = ret ?p"
    by (simp add: RawMemory_plus_def)
  have vv: "(vectors w this)\<lparr>data_m := ?tmp\<rparr> = \<lparr>data_m = ?tmp, size_m = cap\<rparr>"
    using sz by (cases "vectors w this") simp
  show ?thesis
  proof (cases "survive (Suc 0) (fault w)")
    case False
    then show ?thesis
      by (simp add: unf survive_Suc_Suc bind_def[of "RawMemory_ctor _ _"] bind_def[of "bind _ _"] ct)
  next
    case s1: True
    show ?thesis
    proof (cases "survive (Suc 0) ?f1")
      case False
      with s1 show ?thesis
        by (simp add: unf survive_Suc_Suc bind_def[of "RawMemory_ctor _ _"] bind_def[of "bind _ _"] ct
              try_catch_def pl bind_def[of "ret _"] ret_def bind_def[of "construct_at _ _"] ca
              bind_def[of "RawMemory_dtor _"] throw_def split: prod.splits sum.splits)
    next
      case s2: True
      show ?thesis
      proof (cases "survive (move_cost T cap) ?f2")
        case False
        with rl have "isl (fst (CopyMoveConstruct T (Ptr (Some a) 0) (Ptr (Some ?nb) 0) cap ?w2))"
          by simp
        then obtain e w' where "CopyMoveConstruct T (Ptr (Some a) 0) (Ptr (Some ?nb) 0) cap ?w2 = (Inl e, w')"
          by (metis prod.collapse isl_def)
        with s1 s2 False show ?thesis
          by (simp add: unf survive_Suc_Suc bind_def[of "RawMemory_ctor _ _"] bind_def[of "bind _ _"] ct
              try_catch_def pl bind_def[of "ret _"] ret_def bind_def[of "construct_at _ _"] ca ga
              bind_def[of "CopyMoveConstruct _ _ _ _"]
              bind_def[of "RawMemory_dtor _"] throw_def split: prod.splits sum.splits)
      next
        case s3: True
        with rl have rl': "CopyMoveConstruct T (Ptr (Some a) 0) (Ptr (Some ?nb) 0) cap ?w2 = (Inr (), ?w3)"
          by simp
        from s1 s2 s3 show ?thesis
          using fin
          by (simp add: unf survive_Suc_Suc spend_Suc_Suc bind_def[of "RawMemory_ctor _ _"] bind_def[of "bind _ _"] ct
              try_catch_def pl bind_def[of "ret _"] bind_def[of "construct_at _ _"] ca ga
              bind_def[of "CopyMoveConstruct _ _ _ _"] rl' ret_def
              bind_def[of "get_vec _"] bind_def[of "put_vec _ _"] get_vec_def put_vec_def vv
              fun_upd_twist[OF ne])
      qed
    qed
  qed
qed

text \<open>EmplaceBack on a sequence without a buffer.\<close>

lemma EmplaceBack_null:
  assumes h: "vec_holds w this xs 0" and fit: "fits T (Suc 0)"
  shows "(if survive (Suc (Suc 0)) (fault w)
          then EmplaceBack T this x w =
            (Inr (Ptr (Some (next_block w)) 0),
             w\<lparr>vectors := (vectors w)(this :=
                  \<lparr>data_m = \<lparr>buffer_m = Ptr (Some (next_block w)) 0, capacity_m = Suc 0\<rparr>,
                   size_m = Suc 0\<rparr>),
               blocks := (blocks w)(next_block w \<mapsto> [Live x]),
               next_block := Suc (next_block w),
               fault := spend (Suc (Suc 0)) (fault w)\<rparr>)
          else isl (fst (EmplaceBack T this x w)))"
proof -
  note v = vec_holds_null[OF h]
  let ?nb = "next_block w"
  let ?tmp = "\<lparr>buffer_m = Ptr (Some ?nb) 0, capacity_m = Suc 0\<rparr>"
  let ?w1 = "w\<lparr>blocks := (blocks w)(?nb \<mapsto> [Raw]), next_block := Suc ?nb,
               fault := spend (Suc 0) (fault w)\<rparr>"
  have ct: "RawMemory_ctor T (Suc 0) w =
     (if survive (Suc 0) (fault w) then (Inr ?tmp, ?w1) else (Inl AllocationFailure, w\<lparr>fault := None\<rparr>))"
    using RawMemory_ctor_char[of "Suc 0" T w] fit by simp
  have ca: "construct_at (Ptr (Some ?nb) 0) x ?w1 =
     (if survive (Suc 0) (spend (Suc 0) (fault w))
      then (Inr (), w\<lparr>blocks := (blocks w)(?nb \<mapsto> [Live x]), next_block := Suc ?nb,
                      fault := spend (Suc 0) (spend (Suc 0) (fault w))\<rparr>)
      else (Inl (ElementFailure Construct), ?w1\<lparr>fault := None\<rparr>))"
    by (subst construct_at_char[where cs = "[Raw]"]) auto
  have vv: "(vectors w this)\<lparr>data_m := ?tmp\<rparr> = \<lparr>data_m = ?tmp, size_m = 0\<rparr>"
    using v by (cases "vectors w this") simp
  show ?thesis
  proof (cases "survive (Suc 0) (fault w)")
    case False
    then show ?thesis
      using v
      by (simp add: EmplaceBack_def bind_def get_vec_def Capacity_def RawMemory_Capacity_def ct
          survive_Suc_Suc[of 0])
  next
    case s1: True
    show ?thesis
    proof (cases "survive (Suc 0) (spend (Suc 0) (fault w))")
      case False
      with s1 show ?thesis
        using v
        by (simp add: EmplaceBack_def bind_def get_vec_def Capacity_def RawMemory_Capacity_def ct
          try_catch_def RawMemory_plus_def ret_def ca throw_def
          survive_Suc_Suc[of 0] split: prod.splits sum.splits)
    next
      case True
      with s1 show ?thesis
        using v
        by (simp add: EmplaceBack_def bind_def get_vec_def Capacity_def RawMemory_Capacity_def ct
          try_catch_def RawMemory_plus_def ret_def ca CopyMoveConstruct_def GetAddress_def
          RawMemory_Swap_def put_vec_def RawMemory_dtor_def Deallocate_null vv
          survive_Suc_Suc[of 0] spend_Suc_Suc[of 0])
    qed
  qed
qed

lemma Index_vec_holds:
  assumes "vec_holds w this xs cap" "i < length xs"
  shows "Index this i w = (Inr (xs ! i), w)"
proof -
  from assms have le: "length xs \<le> cap" and c: "cap \<noteq> 0" by (auto simp: vec_holds_def)
  with assms obtain a where v: "data_m (vectors w this) = \<lparr>buffer_m = Ptr (Some a) 0, capacity_m = cap\<rparr>"
    and ba: "blocks w a = Some (cells_of xs cap)" and sz: "size_m (vectors w this) = length xs"
    by (auto elim!: vec_holds_block)
  have "load (Ptr (Some a) i) w = (Inr (xs ! i), w)"
    using ba assms(2) le by (intro load_Live) (auto simp: nth_cells_of)
  then show ?thesis
    using assms(2) le v sz
    by (simp add: Index_def bind_def get_vec_def RawMemory_index_def)
qed

lemma EmplaceBack_ok:
  assumes h: "vec_holds w this xs cap" and fr: "fresh_next w"
      and fit: "length xs = cap \<longrightarrow> fits T (max 1 (2 * cap))"
  shows "(fault w = None \<longrightarrow> (\<exists>p w'. EmplaceBack T this x w = (Inr p, w'))) \<and>
         (\<forall>p w'. EmplaceBack T this x w = (Inr p, w') \<longrightarrow>
            vec_holds w' this (xs @ [x]) (if length xs = cap then max 1 (2 * cap) else cap) \<and>
            leaked w' = leaked w \<and>
            p = ptr_add (vbegin (vectors w' this)) (length xs) \<and>
            (allocator_ok w \<longrightarrow> allocator_ok w') \<and>
            (fault w = None \<longrightarrow> fault w' = None))"
proof -
  have le: "length xs \<le> cap" using h by (simp add: vec_holds_def)
  consider (room) "length xs < cap" | (null) "length xs = cap" "cap = 0"
    | (grow) "length xs = cap" "cap \<noteq> 0"
    using le by linarith
  then show ?thesis
  proof cases
    case room
    from EmplaceBack_in_place[OF h room, of T x] obtain a where
      buf: "buffer_m (data_m (vectors w this)) = Ptr (Some a) 0" and
      R: "EmplaceBack T this x w =
     (if survive (Suc 0) (fault w)
      then (Inr (Ptr (Some a) (length xs)),
            w\<lparr>vectors := (vectors w)(this := (vectors w this)\<lparr>size_m := Suc (length xs)\<rparr>),
              blocks := (blocks w)(a \<mapsto> cells_of (xs @ [x]) cap),
              fault := spend (Suc 0) (fault w)\<rparr>)
      else (Inl (ElementFailure Construct), w\<lparr>fault := None\<rparr>))"
      by blast
    have cp: "capacity_m (data_m (vectors w this)) = cap" using h by (simp add: vec_holds_def)
    have ba: "blocks w a = Some (cells_of xs cap)"
      using h room buf by (elim vec_holds_block) auto
    show ?thesis
    proof (intro conjI impI allI)
      assume "fault w = None"
      with R show "\<exists>p w'. EmplaceBack T this x w = (Inr p, w')" by simp
    next
      fix p w' assume ok: "EmplaceBack T this x w = (Inr p, w')"
      with R have s: "survive (Suc 0) (fault w)" by (simp split: if_splits)
      with R ok have p: "p = Ptr (Some a) (length xs)" and
        w': "w' = w\<lparr>vectors := (vectors w)(this := (vectors w this)\<lparr>size_m := Suc (length xs)\<rparr>),
              blocks := (blocks w)(a \<mapsto> cells_of (xs @ [x]) cap),
              fault := spend (Suc 0) (fault w)\<rparr>"
        by simp_all
      show "vec_holds w' this (xs @ [x]) (if length xs = cap then max 1 (2 * cap) else cap)"
        using room buf cp by (simp add: w' vec_holds_def)
      show "leaked w' = leaked w" by (simp add: w')
      show "p = ptr_add (vbegin (vectors w' this)) (length xs)"
        using buf by (simp add: w' p vbegin_def GetAddress_def)
      show "allocator_ok w'" if "allocator_ok w"
        using that ba by (auto simp: w' allocator_ok_def)
      show "fault w' = None" if "fault w = None"
        using that by (simp add: w')
    qed
  next
    case null
    with h have h0: "vec_holds w this xs 0" by simp
    have "fits T (Suc 0)" using fit null by simp
    note R = EmplaceBack_null[OF h0 this, of x]
    have xs: "xs = []" using null by simp
    show ?thesis
    proof (intro conjI impI allI)
      assume "fault w = None"
      with R show "\<exists>p w'. EmplaceBack T this x w = (Inr p, w')" by simp
    next
      fix p w' assume ok: "EmplaceBack T this x w = (Inr p, w')"
      with R have s: "survive (Suc (Suc 0)) (fault w)" by (auto split: if_splits)
      with R ok have p: "p = Ptr (Some (next_block w)) 0" and
        w': "w' = w\<lparr>vectors := (vectors w)(this :=
                  \<lparr>data_m = \<lparr>buffer_m = Ptr (Some (next_block w)) 0, capacity_m = Suc 0\<rparr>,
                   size_m = Suc 0\<rparr>),
               blocks := (blocks w)(next_block w \<mapsto> [Live x]),
               next_block := Suc (next_block w),
               fault := spend (Suc (Suc 0)) (fault w)\<rparr>"
        by simp_all
      show "vec_holds w' this (xs @ [x]) (if length xs = cap then max 1 (2 * cap) else cap)"
        using null by (simp add: w' xs vec_holds_def cells_of_def)
      show "leaked w' = leaked w" by (simp add: w')
      show "p = ptr_add (vbegin (vectors w' this)) (length xs)"
        by (simp add: w' p xs vbegin_def GetAddress_def)
      show "allocator_ok w'" if "allocator_ok w"
        using that by (auto simp: w' allocator_ok_def)
      show "fault w' = None" if "fault w = None"
        using that by (simp add: w')
    qed
  next
    case grow
    with h obtain a where buf: "buffer_m (data_m (vectors w this)) = Ptr (Some a) 0"
      and ba: "blocks w a = Some (cells_of xs cap)"
      by (elim vec_holds_block) auto
    have ne: "a \<noteq> next_block w" using fr ba by (auto simp: fresh_next_def)
    have "fits T (cap * 2)" using fit grow by (simp add: mult.commute)
    note R = EmplaceBack_grow[OF h fr grow(1) grow(2) buf this, of x]
    show ?thesis
    proof (intro conjI impI allI)
      assume "fault w = None"
      with R show "\<exists>p w'. EmplaceBack T this x w = (Inr p, w')" by simp
    next
      fix p w' assume ok: "EmplaceBack T this x w = (Inr p, w')"
      with R have s: "survive (Suc (Suc (move_cost T cap))) (fault w)" by (auto split: if_splits)
      with R ok have p: "p = Ptr (Some (next_block w)) cap" and
        w': "w' = w\<lparr>vectors := (vectors w)(this :=
                  \<lparr>data_m = \<lparr>buffer_m = Ptr (Some (next_block w)) 0, capacity_m = cap * 2\<rparr>,
                   size_m = Suc cap\<rparr>),
               blocks := (blocks w)(next_block w \<mapsto> cells_of (xs @ [x]) (cap * 2), a := None),
               next_block := Suc (next_block w),
               fault := spend (Suc (Suc (move_cost T cap))) (fault w)\<rparr>"
        by simp_all
      have m: "max (Suc 0) (2 * cap) = cap * 2" using grow by simp
      show "vec_holds w' this (xs @ [x]) (if length xs = cap then max 1 (2 * cap) else cap)"
        using grow ne by (simp add: w' vec_holds_def m)
      show "leaked w' = leaked w" by (simp add: w')
      show "p = ptr_add (vbegin (vectors w' this)) (length xs)"
        using grow by (simp add: w' p vbegin_def GetAddress_def)
      show "allocator_ok w'" if "allocator_ok w"
        using that by (auto simp: w' allocator_ok_def)
      show "fault w' = None" if "fault w = None"
        using that by (simp add: w')
    qed
  qed
qed

lemma allocator_ok_fresh: "allocator_ok w \<Longrightarrow> fresh_next w"
  by (simp add: allocator_ok_def fresh_next_def)

lemma PushBack_Inr:
  "PushBack T this x w = (Inr (), w') \<longleftrightarrow> (\<exists>p. EmplaceBack T this x w = (Inr p, w'))"
  by (auto simp: PushBack_def bind_def ret_def split: prod.splits sum.splits)

lemma push_step:
  assumes "vec_holds w this xs cap" "allocator_ok w" "fault w = None"
      and "length xs = cap \<longrightarrow> fits T (max 1 (2 * cap))"
  shows "vec_holds (snd (PushBack T this x w)) this (xs @ [x])
           (if length xs = cap then max 1 (2 * cap) else cap) \<and>
         allocator_ok (snd (PushBack T this x w)) \<and> fault (snd (PushBack T this x w)) = None"
proof -
  note E = EmplaceBack_ok[OF assms(1) allocator_ok_fresh[OF assms(2)] assms(4), of x]
  from E assms(3) obtain p w' where ok: "EmplaceBack T this x w = (Inr p, w')" by blast
  then have "PushBack T this x w = (Inr (), w')" by (simp add: PushBack_Inr)
  then have s: "snd (PushBack T this x w) = w'" by simp
  from E ok assms show ?thesis unfolding s by blast
qed

lemma push_all_snoc:
  "push_all T this (xs @ [x]) w = snd (PushBack T this x (push_all T this xs w))"
  by (induction xs arbitrary: w) auto

lemma growth_mono: "growth k \<le> growth (Suc k)"
proof (cases "k = growth k")
  case True
  have "growth (Suc k) = max 1 (2 * growth k)"
    by (subst growth.simps) (rule if_P[OF True])
  then show ?thesis by (simp add: le_max_iff_disj)
next
  case False
  have "growth (Suc k) = growth k"
    by (subst growth.simps) (rule if_not_P[OF False])
  then show ?thesis by simp
qed

lemma growth_le: "growth k \<le> 2 * k"
proof (induction k)
  case 0
  show ?case by simp
next
  case (Suc k)
  show ?case
  proof (cases "k = growth k")
    case True
    have "growth (Suc k) = max 1 (2 * growth k)"
      by (subst growth.simps) (rule if_P[OF True])
    moreover have "growth k = k" using True by simp
    ultimately show ?thesis by simp
  next
    case False
    have "growth (Suc k) = growth k"
      by (subst growth.simps) (rule if_not_P[OF False])
    with Suc.IH show ?thesis by simp
  qed
qed

lemma push_all_holds:
  "fits T (growth (length xs)) \<Longrightarrow>
   vec_holds (push_all T this xs world0) this xs (growth (length xs)) \<and>
   allocator_ok (push_all T this xs world0) \<and> fault (push_all T this xs (world0 :: 'a world)) = None"
proof (induction xs rule: rev_induct)
  case Nil
  show ?case
    by (simp add: world0_def vec_holds_def allocator_ok_def Vector_default_def RawMemory_default_def nullptr_def)
next
  case (snoc x xs)
  from snoc.prems have f: "fits T (growth (Suc (length xs)))" by simp
  then have "fits T (growth (length xs))" by (rule fits_mono) (rule growth_mono)
  note IH = snoc.IH[OF this]
  have g: "length xs = growth (length xs) \<longrightarrow> fits T (max 1 (2 * growth (length xs)))"
  proof
    assume e: "length xs = growth (length xs)"
    have eq: "growth (Suc (length xs)) = max 1 (2 * growth (length xs))"
      by (subst growth.simps) (rule if_P[OF e])
    from f[unfolded eq] show "fits T (max 1 (2 * growth (length xs)))" .
  qed
  note S = push_step[OF IH[THEN conjunct1] IH[THEN conjunct2, THEN conjunct1]
      IH[THEN conjunct2, THEN conjunct2] g, of x]
  then show ?case by (simp add: push_all_snoc)
qed

lemma fits_trivial_T: "k \<le> 16 \<Longrightarrow> fits trivial_T (growth k)"
  using growth_le[of k] by (simp add: fits_def trivial_T_def size_limit_def)

lemma growth_values: "map growth [0..<11] = [0, 1, 2, 4, 4, 8, 8, 8, 8, 16, 16]"
  by (simp add: eval_nat_numeral upt_rec)

lemma growth_trace:
  "map (\<lambda>k. Capacity (vectors (push_all trivial_T 0 [0..<k] world0) 0)) [0..<11] =
     [0, 1, 2, 4, 4, 8, 8, 8, 8, 16, 16]"
proof -
  have "Capacity (vectors (push_all trivial_T 0 [0..<k] world0) 0) = growth k" if "k \<le> 16" for k
    using push_all_holds[of trivial_T "[0..<k]" 0] fits_trivial_T[OF that]
    by (simp add: vec_holds_def Capacity_def RawMemory_Capacity_def)
  then have "map (\<lambda>k. Capacity (vectors (push_all trivial_T 0 [0..<k] world0) 0)) [0..<11] =
      map growth [0..<11]"
    by (intro map_cong) auto
  then show ?thesis using growth_values by simp
qed

lemma ten_appends:
  "Size (vectors (push_all trivial_T 0 [0..<10] world0) 0) = 10 \<and>
   (\<forall>i<10. Index 0 i (push_all trivial_T 0 [0..<10] world0) =
              (Inr i, push_all trivial_T 0 [0..<10] world0))"
proof -
  have h: "vec_holds (push_all trivial_T 0 [0..<10] world0) 0 [0..<10] (growth 10)"
    using push_all_holds[of trivial_T "[0..<10]" 0] fits_trivial_T[of 10] by simp
  then have "Size (vectors (push_all trivial_T 0 [0..<10] world0) 0) = 10"
    by (simp add: vec_holds_def Size_def)
  moreover have "Index 0 i (push_all trivial_T 0 [0..<10] world0) =
              (Inr i, push_all trivial_T 0 [0..<10] world0)" if "i < 10" for i
    using Index_vec_holds[OF h, of i] that by simp
  ultimately show ?thesis by blast
qed

subsection \<open>Erase\<close>

lemma move_assign_down_char:
  assumes "blocks w a = Some cs" "Suc j < length cs" "is_live (cs ! j)" "is_live (cs ! Suc j)"
  shows "move_assign T (Ptr (Some a) j) (Ptr (Some a) (Suc j)) w =
     (if survive (Suc 0) (fault w)
      then (Inr (), w\<lparr>blocks := (blocks w)(a \<mapsto> cs[j := cs ! Suc j,
                                                   Suc j := vacated (moved_from T) (cs ! Suc j)]),
                      fault := spend (Suc 0) (fault w)\<rparr>)
      else (Inl (ElementFailure MoveAssign), w\<lparr>fault := None\<rparr>))"
proof -
  from assms obtain x y where x: "cs ! Suc j = Live x" and y: "cs ! j = Live y"
    using live_cell by blast
  have l: "load (Ptr (Some a) (Suc j)) w = (Inr x, w)"
    using assms x by (intro load_Live) auto
  let ?w0 = "w\<lparr>fault := spend (Suc 0) (fault w)\<rparr>"
  have s1: "assign (Ptr (Some a) j) x ?w0 =
      (Inr (), ?w0\<lparr>blocks := (blocks ?w0)(a \<mapsto> cs[j := Live x])\<rparr>)"
    using assms y by (intro assign_Live[where y = y]) auto
  have s2: "assign (Ptr (Some a) (Suc j)) (moved_from T x)
        (w\<lparr>fault := spend (Suc 0) (fault w), blocks := (blocks w)(a \<mapsto> cs[j := Live x])\<rparr>) =
      (Inr (), w\<lparr>fault := spend (Suc 0) (fault w),
                 blocks := (blocks w)(a \<mapsto> cs[j := Live x, Suc j := Live (moved_from T x)])\<rparr>)"
    using assms x by (subst assign_Live[where cs = "cs[j := Live x]" and y = x]) auto
  show ?thesis
    using s1 s2
    by (simp add: move_assign_def bind_def l may_fail_char x)
qed

lemma move_loop_down_char:
  assumes "blocks w a = Some cs" "j + n < length cs"
          "\<forall>p. j \<le> p \<and> p \<le> j + n \<longrightarrow> is_live (cs ! p)"
  shows "(if survive n (fault w)
          then move_loop T (Ptr (Some a) (Suc j)) n (Ptr (Some a) j) w =
            (Inr (), w\<lparr>blocks := (blocks w)(a \<mapsto> slide (moved_from T) cs j n),
                       fault := spend n (fault w)\<rparr>)
          else isl (fst (move_loop T (Ptr (Some a) (Suc j)) n (Ptr (Some a) j) w)))"
  using assms
proof (induction n arbitrary: w j cs)
  case 0
  then show ?case by (simp add: ret_def fun_upd_idem)
next
  case (Suc n)
  let ?cs1 = "cs[j := cs ! Suc j, Suc j := vacated (moved_from T) (cs ! Suc j)]"
  let ?w1 = "w\<lparr>blocks := (blocks w)(a \<mapsto> ?cs1), fault := spend (Suc 0) (fault w)\<rparr>"
  have ma: "move_assign T (Ptr (Some a) j) (Ptr (Some a) (Suc j)) w =
     (if survive (Suc 0) (fault w) then (Inr (), ?w1)
      else (Inl (ElementFailure MoveAssign), w\<lparr>fault := None\<rparr>))"
    using Suc.prems by (intro move_assign_down_char) auto
  have IH: "(if survive n (fault ?w1)
          then move_loop T (Ptr (Some a) (Suc (Suc j))) n (Ptr (Some a) (Suc j)) ?w1 =
            (Inr (), ?w1\<lparr>blocks := (blocks ?w1)(a \<mapsto> slide (moved_from T) ?cs1 (Suc j) n),
                       fault := spend n (fault ?w1)\<rparr>)
          else isl (fst (move_loop T (Ptr (Some a) (Suc (Suc j))) n (Ptr (Some a) (Suc j)) ?w1)))"
    using Suc.prems by (intro Suc.IH) (auto simp: nth_list_update)
  show ?case
  proof (cases "survive (Suc 0) (fault w)")
    case False
    then show ?thesis by (simp add: ma bind_def survive_Suc[of n])
  next
    case s1: True
    show ?thesis
    proof (cases "survive n (spend (Suc 0) (fault w))")
      case True
      with IH have "move_loop T (Ptr (Some a) (Suc (Suc j))) n (Ptr (Some a) (Suc j)) ?w1 =
            (Inr (), w\<lparr>blocks := (blocks w)(a \<mapsto> slide (moved_from T) ?cs1 (Suc j) n),
                       fault := spend n (spend (Suc 0) (fault w))\<rparr>)"
        by simp
      with s1 True show ?thesis
        by (simp add: ma bind_def survive_Suc[of n] spend_Suc[of n])
    next
      case False
      with IH have "isl (fst (move_loop T (Ptr (Some a) (Suc (Suc j))) n (Ptr (Some a) (Suc j)) ?w1))"
        by simp
      then obtain e w2 where "move_loop T (Ptr (Some a) (Suc (Suc j))) n (Ptr (Some a) (Suc j)) ?w1 = (Inl e, w2)"
        by (metis prod.collapse isl_def)
      with s1 False show ?thesis
        by (simp add: ma bind_def survive_Suc[of n])
    qed
  qed
qed

lemma erased_cells:
  assumes "length xs \<le> cap" "d < length xs"
  shows "(slide f (cells_of xs cap) d (length xs - Suc d))[length xs - Suc 0 := Raw] =
           cells_of (take d xs @ drop (Suc d) xs) cap"
proof (rule nth_equalityI)
  show "length ((slide f (cells_of xs cap) d (length xs - Suc d))[length xs - Suc 0 := Raw]) =
          length (cells_of (take d xs @ drop (Suc d) xs) cap)"
    using assms by simp
next
  fix p assume "p < length ((slide f (cells_of xs cap) d (length xs - Suc d))[length xs - Suc 0 := Raw])"
  then have p: "p < cap" using assms by simp
  show "(slide f (cells_of xs cap) d (length xs - Suc d))[length xs - Suc 0 := Raw] ! p =
          cells_of (take d xs @ drop (Suc d) xs) cap ! p"
    using p assms
    by (auto simp: nth_list_update nth_slide nth_cells_of nth_append min_def)
qed

lemma Erase_char:
  assumes h: "vec_holds w this xs cap" and d: "d < length xs"
  shows "\<exists>a. buffer_m (data_m (vectors w this)) = Ptr (Some a) 0 \<and>
     (if survive (length xs - Suc d) (fault w)
      then Erase T this (Ptr (Some a) d) w =
        (Inr (Ptr (Some a) d),
         w\<lparr>vectors := (vectors w)(this := (vectors w this)\<lparr>size_m := length xs - 1\<rparr>),
           blocks := (blocks w)(a \<mapsto> cells_of (take d xs @ drop (Suc d) xs) cap),
           fault := spend (length xs - Suc d) (fault w)\<rparr>)
      else isl (fst (Erase T this (Ptr (Some a) d) w)))"
proof -
  from h d have le: "length xs \<le> cap" and c: "cap \<noteq> 0" by (auto simp: vec_holds_def)
  with h obtain a where v: "data_m (vectors w this) = \<lparr>buffer_m = Ptr (Some a) 0, capacity_m = cap\<rparr>"
    and ba: "blocks w a = Some (cells_of xs cap)" and sz: "size_m (vectors w this) = length xs"
    by (auto elim!: vec_holds_block)
  let ?n = "length xs - Suc d"
  let ?cs1 = "slide (moved_from T) (cells_of xs cap) d ?n"
  let ?w1 = "w\<lparr>blocks := (blocks w)(a \<mapsto> ?cs1), fault := spend ?n (fault w)\<rparr>"
  have ml: "(if survive ?n (fault w)
          then move_loop T (Ptr (Some a) (Suc d)) ?n (Ptr (Some a) d) w = (Inr (), ?w1)
          else isl (fst (move_loop T (Ptr (Some a) (Suc d)) ?n (Ptr (Some a) d) w)))"
    using ba d le by (intro move_loop_down_char) (auto simp: live_cells_of)
  have ne: "xs \<noteq> []" using d by auto
  have last_live: "is_live (?cs1 ! (length xs - Suc 0))"
    using d le by (auto simp: nth_slide nth_cells_of)
  then obtain y where y: "?cs1 ! (length xs - Suc 0) = Live y" using live_cell by blast
  have da: "destroy_at (Ptr (Some a) (length xs - Suc 0)) ?w1 =
      (Inr (), w\<lparr>blocks := (blocks w)(a \<mapsto> cells_of (take d xs @ drop (Suc d) xs) cap),
                 fault := spend ?n (fault w)\<rparr>)"
    using d le y erased_cells[OF le d, of "moved_from T"]
    by (subst destroy_at_Live[where cs = ?cs1 and y = y]) auto
  have unf: "Erase T this (Ptr (Some a) d) w =
       bind (move_loop T (Ptr (Some a) (Suc d)) ?n (Ptr (Some a) d)) (\<lambda>_.
       bind (PopBack this) (\<lambda>_.
       bind (get_vec this) (\<lambda>v'.
       ret (ptr_add (vbegin v') d)))) w"
    using v sz d
    by (simp add: Erase_def bind_def[of "get_vec this" _ w] get_vec_def cbegin_def cend_def
          vbegin_def vend_def GetAddress_def ptr_le_def ptr_diff_def std_move_def valid_range_def
          Let_def)
  show ?thesis
  proof (cases "survive ?n (fault w)")
    case True
    with ml have m: "move_loop T (Ptr (Some a) (Suc d)) ?n (Ptr (Some a) d) w = (Inr (), ?w1)"
      by simp
    have "Erase T this (Ptr (Some a) d) w =
        (Inr (Ptr (Some a) d),
         w\<lparr>vectors := (vectors w)(this := (vectors w this)\<lparr>size_m := length xs - 1\<rparr>),
           blocks := (blocks w)(a \<mapsto> cells_of (take d xs @ drop (Suc d) xs) cap),
           fault := spend (length xs - Suc d) (fault w)\<rparr>)"
      using v sz d da ne
      by (simp add: unf bind_def[of "move_loop _ _ _ _"] m PopBack_def bind_def[of "get_vec _"]
            get_vec_def GetAddress_def bind_def[of "destroy_at _"] put_vec_def ret_def vbegin_def
            bind_def[of "bind _ _"] bind_def[of "\<lambda>w. _"])
    with True v show ?thesis by simp
  next
    case False
    with ml have "isl (fst (move_loop T (Ptr (Some a) (Suc d)) ?n (Ptr (Some a) d) w))" by simp
    then obtain e w2 where "move_loop T (Ptr (Some a) (Suc d)) ?n (Ptr (Some a) d) w = (Inl e, w2)"
      by (metis prod.collapse isl_def)
    with False v show ?thesis
      by (simp add: unf bind_def[of "move_loop _ _ _ _"])
  qed
qed

subsection \<open>Copy assignment\<close>

lemma copy_assign_char:
  assumes "blocks w b = Some src" "blocks w a = Some dst" "i < length src" "j < length dst"
          "src ! i = Live x" "is_live (dst ! j)"
  shows "copy_assign (Ptr (Some a) j) (Ptr (Some b) i) w =
     (if survive (Suc 0) (fault w)
      then (Inr (), w\<lparr>blocks := (blocks w)(a \<mapsto> dst[j := Live x]), fault := spend (Suc 0) (fault w)\<rparr>)
      else (Inl (ElementFailure CopyAssign), w\<lparr>fault := None\<rparr>))"
proof -
  from assms obtain y where y: "dst ! j = Live y" using live_cell by blast
  have l: "load (Ptr (Some b) i) w = (Inr x, w)" using assms by (intro load_Live) auto
  have s: "assign (Ptr (Some a) j) x (w\<lparr>fault := spend (Suc 0) (fault w)\<rparr>) =
      (Inr (), w\<lparr>fault := spend (Suc 0) (fault w), blocks := (blocks w)(a \<mapsto> dst[j := Live x])\<rparr>)"
    using assms y by (subst assign_Live[where cs = dst and y = y]) auto
  show ?thesis
    by (simp add: copy_assign_def bind_def l may_fail_char s)
qed

lemma copy_loop_char:
  assumes "blocks w b = Some src" "blocks w a = Some dst" "a \<noteq> b"
          "i + n \<le> length src" "j + n \<le> length dst"
          "\<forall>p. i \<le> p \<and> p < i + n \<longrightarrow> is_live (src ! p)"
          "\<forall>p. j \<le> p \<and> p < j + n \<longrightarrow> is_live (dst ! p)"
  shows "(if survive n (fault w)
          then copy_loop (Ptr (Some b) i) n (Ptr (Some a) j) w =
            (Inr (), w\<lparr>blocks := (blocks w)(a \<mapsto> blit src i n dst j), fault := spend n (fault w)\<rparr>)
          else fst (copy_loop (Ptr (Some b) i) n (Ptr (Some a) j) w) = Inl (ElementFailure CopyAssign))"
  using assms
proof (induction n arbitrary: w i j dst)
  case 0
  then show ?case by (simp add: ret_def fun_upd_idem)
next
  case (Suc n)
  from Suc.prems obtain x where x: "src ! i = Live x"
    using live_cell[of "src ! i"] by auto
  let ?w1 = "w\<lparr>blocks := (blocks w)(a \<mapsto> dst[j := Live x]), fault := spend (Suc 0) (fault w)\<rparr>"
  have ca: "copy_assign (Ptr (Some a) j) (Ptr (Some b) i) w =
     (if survive (Suc 0) (fault w) then (Inr (), ?w1)
      else (Inl (ElementFailure CopyAssign), w\<lparr>fault := None\<rparr>))"
    using Suc.prems x by (intro copy_assign_char) auto
  have IH: "(if survive n (fault ?w1)
          then copy_loop (Ptr (Some b) (Suc i)) n (Ptr (Some a) (Suc j)) ?w1 =
            (Inr (), ?w1\<lparr>blocks := (blocks ?w1)(a \<mapsto> blit src (Suc i) n (dst[j := Live x]) (Suc j)),
                       fault := spend n (fault ?w1)\<rparr>)
          else fst (copy_loop (Ptr (Some b) (Suc i)) n (Ptr (Some a) (Suc j)) ?w1) =
                 Inl (ElementFailure CopyAssign))"
    using Suc.prems by (intro Suc.IH) (auto simp: nth_list_update)
  show ?case
  proof (cases "survive (Suc 0) (fault w)")
    case False
    then show ?thesis by (simp add: ca bind_def survive_Suc[of n])
  next
    case s1: True
    show ?thesis
    proof (cases "survive n (spend (Suc 0) (fault w))")
      case True
      with IH have "copy_loop (Ptr (Some b) (Suc i)) n (Ptr (Some a) (Suc j)) ?w1 =
            (Inr (), w\<lparr>blocks := (blocks w)(a \<mapsto> blit src (Suc i) n (dst[j := Live x]) (Suc j)),
                       fault := spend n (spend (Suc 0) (fault w))\<rparr>)"
        by simp
      with s1 True show ?thesis
        by (simp add: ca bind_def survive_Suc[of n] spend_Suc[of n] x)
    next
      case False
      with IH have "fst (copy_loop (Ptr (Some b) (Suc i)) n (Ptr (Some a) (Suc j)) ?w1) =
                 Inl (ElementFailure CopyAssign)"
        by simp
      then obtain w2 where "copy_loop (Ptr (Some b) (Suc i)) n (Ptr (Some a) (Suc j)) ?w1 =
                 (Inl (ElementFailure CopyAssign), w2)"
        by (metis prod.collapse)
      with s1 False show ?thesis
        by (simp add: ca bind_def survive_Suc[of n])
    qed
  qed
qed

text \<open>The cells of the target after an assignment in place.\<close>

lemma assigned_cells_shrink:
  assumes "length ys < length xs" "length xs \<le> cap" "length ys \<le> cap'"
  shows "wipe (blit (cells_of ys cap') 0 (length ys) (cells_of xs cap) 0) (length ys)
           (length xs - length ys) = cells_of ys cap"
proof (rule nth_equalityI)
  show "length (wipe (blit (cells_of ys cap') 0 (length ys) (cells_of xs cap) 0) (length ys)
           (length xs - length ys)) = length (cells_of ys cap)"
    using assms by simp
next
  fix p assume "p < length (wipe (blit (cells_of ys cap') 0 (length ys) (cells_of xs cap) 0) (length ys)
           (length xs - length ys))"
  then have "p < cap" using assms by simp
  then show "wipe (blit (cells_of ys cap') 0 (length ys) (cells_of xs cap) 0) (length ys)
           (length xs - length ys) ! p = cells_of ys cap ! p"
    using assms by (auto simp: nth_wipe nth_blit nth_cells_of)
qed

lemma assigned_cells_grow:
  assumes "length xs \<le> length ys" "length ys \<le> cap" "length ys \<le> cap'"
  shows "blit (cells_of ys cap') (length xs) (length ys - length xs)
           (blit (cells_of ys cap') 0 (length xs) (cells_of xs cap) 0) (length xs) = cells_of ys cap"
proof (rule nth_equalityI)
  show "length (blit (cells_of ys cap') (length xs) (length ys - length xs)
           (blit (cells_of ys cap') 0 (length xs) (cells_of xs cap) 0) (length xs)) =
        length (cells_of ys cap)"
    using assms by simp
next
  fix p assume "p < length (blit (cells_of ys cap') (length xs) (length ys - length xs)
           (blit (cells_of ys cap') 0 (length xs) (cells_of xs cap) 0) (length xs))"
  then have "p < cap" using assms by simp
  then show "blit (cells_of ys cap') (length xs) (length ys - length xs)
           (blit (cells_of ys cap') 0 (length xs) (cells_of xs cap) 0) (length xs) ! p =
        cells_of ys cap ! p"
    using assms by (auto simp: nth_blit nth_cells_of)
qed

lemma vec_holds_other_block:
  assumes "vec_holds w other ys cap'" "base (buffer_m (data_m (vectors w other))) \<noteq> Some a"
          "vectors w' other = vectors w other" "\<forall>b. b \<noteq> a \<longrightarrow> blocks w' b = blocks w b"
  shows "vec_holds w' other ys cap'"
  using assms by (auto simp: vec_holds_def split: ptr.splits option.splits)

lemma std_copy_from_vec:
  assumes ho: "vec_holds w other ys cap'" and ba: "blocks w a = Some dst"
      and sep: "base (buffer_m (data_m (vectors w other))) \<noteq> Some a"
      and n: "n \<le> length ys" "n \<le> length dst" "\<forall>p. p < n \<longrightarrow> is_live (dst ! p)"
  shows "(if survive n (fault w)
          then std_copy (GetAddress (data_m (vectors w other)))
                 (ptr_add (GetAddress (data_m (vectors w other))) n) (Ptr (Some a) 0) w =
            (Inr (), w\<lparr>blocks := (blocks w)(a \<mapsto> blit (cells_of ys cap') 0 n dst 0),
                       fault := spend n (fault w)\<rparr>)
          else fst (std_copy (GetAddress (data_m (vectors w other)))
                 (ptr_add (GetAddress (data_m (vectors w other))) n) (Ptr (Some a) 0) w) =
               Inl (ElementFailure CopyAssign))"
proof (cases "cap' = 0")
  case True
  with ho have h0: "vec_holds w other ys 0" by simp
  note v = vec_holds_null[OF h0]
  with n have "n = 0" by simp
  then show ?thesis
    using v ba by (simp add: std_copy_def valid_range_def GetAddress_def ret_def fun_upd_idem)
next
  case False
  with ho obtain b where v: "data_m (vectors w other) = \<lparr>buffer_m = Ptr (Some b) 0, capacity_m = cap'\<rparr>"
    and bb: "blocks w b = Some (cells_of ys cap')" and le: "length ys \<le> cap'"
    by (auto elim!: vec_holds_block)
  from sep v have ne: "a \<noteq> b" by auto
  have "(if survive n (fault w)
          then copy_loop (Ptr (Some b) 0) n (Ptr (Some a) 0) w =
            (Inr (), w\<lparr>blocks := (blocks w)(a \<mapsto> blit (cells_of ys cap') 0 n dst 0), fault := spend n (fault w)\<rparr>)
          else fst (copy_loop (Ptr (Some b) 0) n (Ptr (Some a) 0) w) = Inl (ElementFailure CopyAssign))"
    using bb ba ne n le by (intro copy_loop_char) (auto simp: live_cells_of)
  then show ?thesis
    using v by (simp add: std_copy_def valid_range_def GetAddress_def)
qed

lemma uninitialized_copy_from_vec:
  assumes ho: "vec_holds w other ys cap'" and ba: "blocks w a = Some dst"
      and sep: "base (buffer_m (data_m (vectors w other))) \<noteq> Some a"
      and n: "i + n \<le> length ys" "i + n \<le> length dst" "\<forall>p. i \<le> p \<and> p < i + n \<longrightarrow> dst ! p = Raw"
  shows "uninitialized_copy_n (ptr_add (GetAddress (data_m (vectors w other))) i) n (Ptr (Some a) i) w =
     (if survive n (fault w)
      then (Inr (), w\<lparr>blocks := (blocks w)(a \<mapsto> blit (cells_of ys cap') i n dst i),
                      fault := spend n (fault w)\<rparr>)
      else (Inl (ElementFailure CopyConstruct), w\<lparr>fault := None\<rparr>))"
proof (cases "cap' = 0")
  case True
  with ho have h0: "vec_holds w other ys 0" by simp
  note v = vec_holds_null[OF h0]
  with n have "n = 0" by simp
  then show ?thesis
    using v ba by (simp add: ret_def fun_upd_idem)
next
  case False
  with ho obtain b where v: "data_m (vectors w other) = \<lparr>buffer_m = Ptr (Some b) 0, capacity_m = cap'\<rparr>"
    and bb: "blocks w b = Some (cells_of ys cap')" and le: "length ys \<le> cap'"
    by (auto elim!: vec_holds_block)
  from sep v have ne: "b \<noteq> a" by auto
  have "uninitialized_copy_n (Ptr (Some b) i) n (Ptr (Some a) i) w =
     (if survive n (fault w)
      then (Inr (), w\<lparr>blocks := (blocks w)(a \<mapsto> blit (cells_of ys cap') i n dst i),
                      fault := spend n (fault w)\<rparr>)
      else (Inl (ElementFailure CopyConstruct), w\<lparr>fault := None\<rparr>))"
    using bb ba ne n le by (intro uninitialized_copy_n_char) (auto simp: live_cells_of)
  then show ?thesis
    using v by (simp add: GetAddress_def)
qed

lemma Vector_dtor_block:
  assumes "blocks w a = Some (cells_of xs cap)" "length xs \<le> cap"
  shows "Vector_dtor \<lparr>data_m = \<lparr>buffer_m = Ptr (Some a) 0, capacity_m = cap\<rparr>, size_m = length xs\<rparr> w =
           (Inr (), w\<lparr>blocks := (blocks w)(a := None)\<rparr>)"
proof -
  have d: "destroy_n (Ptr (Some a) 0) (length xs) w =
      (Inr (), w\<lparr>blocks := (blocks w)(a \<mapsto> wipe (cells_of xs cap) 0 (length xs))\<rparr>)"
    using assms by (intro destroy_n_char) (auto simp: live_cells_of)
  have w: "wipe (cells_of xs cap) 0 (length xs) = replicate cap Raw"
    using assms wipe_all[of "length xs" "cells_of xs cap"] by (simp add: raw_cells_of)
  show ?thesis
    by (simp add: Vector_dtor_def bind_def GetAddress_def d w RawMemory_dtor_def Deallocate_block)
qed

lemma Vector_dtor_null:
  "Vector_dtor \<lparr>data_m = \<lparr>buffer_m = Ptr None 0, capacity_m = 0\<rparr>, size_m = 0\<rparr> w = (Inr (), w)"
  by (simp add: Vector_dtor_def bind_def GetAddress_def ret_def RawMemory_dtor_def Deallocate_null)

text \<open>The copy constructor, from a sequence with at least one element.\<close>

lemma Vector_copy_ctor_char:
  assumes ho: "vec_holds w other ys cap'" and fr: "fresh_next w" and k: "ys \<noteq> []"
      and fit: "fits T (length ys)"
  shows "Vector_copy_ctor T (vectors w other) w =
     (if \<not> survive (Suc 0) (fault w) then (Inl AllocationFailure, w\<lparr>fault := None\<rparr>)
      else if \<not> survive (length ys) (spend (Suc 0) (fault w))
      then (Inl (ElementFailure CopyConstruct), w\<lparr>next_block := Suc (next_block w), fault := None\<rparr>)
      else (Inr \<lparr>data_m = \<lparr>buffer_m = Ptr (Some (next_block w)) 0, capacity_m = length ys\<rparr>,
                size_m = length ys\<rparr>,
            w\<lparr>blocks := (blocks w)(next_block w \<mapsto> cells_of ys (length ys)),
              next_block := Suc (next_block w),
              fault := spend (length ys) (spend (Suc 0) (fault w))\<rparr>))"
proof -
  let ?nb = "next_block w"
  let ?k = "length ys"
  have k0: "?k \<noteq> 0" using k by simp
  have sz: "Size (vectors w other) = ?k" using ho by (simp add: vec_holds_def Size_def)
  have le: "?k \<le> cap'" using ho by (simp add: vec_holds_def)
  let ?w1 = "w\<lparr>blocks := (blocks w)(?nb \<mapsto> replicate ?k Raw), next_block := Suc ?nb,
               fault := spend (Suc 0) (fault w)\<rparr>"
  have sep: "base (buffer_m (data_m (vectors w other))) \<noteq> Some ?nb"
    using ho fr by (auto simp: vec_holds_def fresh_next_def split: ptr.splits option.splits)
  have ho1: "vec_holds ?w1 other ys cap'"
    using ho sep by (rule vec_holds_other_block) auto
  have "uninitialized_copy_n (ptr_add (GetAddress (data_m (vectors ?w1 other))) 0) ?k (Ptr (Some ?nb) 0) ?w1 =
     (if survive ?k (fault ?w1)
      then (Inr (), ?w1\<lparr>blocks := (blocks ?w1)(?nb \<mapsto> blit (cells_of ys cap') 0 ?k (replicate ?k Raw) 0),
                      fault := spend ?k (fault ?w1)\<rparr>)
      else (Inl (ElementFailure CopyConstruct), ?w1\<lparr>fault := None\<rparr>))"
    using sep by (intro uninitialized_copy_from_vec[OF ho1]) auto
  moreover have "blit (cells_of ys cap') 0 ?k (replicate ?k Raw) 0 = cells_of ys ?k"
    using le blit_cells_of[of ys cap' "replicate ?k Raw"] by (simp add: cells_of_def[of ys ?k])
  moreover have "ptr_add (GetAddress (data_m (vectors w other))) 0 = GetAddress (data_m (vectors w other))"
    by (cases "GetAddress (data_m (vectors w other))") simp
  ultimately have cp: "uninitialized_copy_n (GetAddress (data_m (vectors w other))) ?k (Ptr (Some ?nb) 0) ?w1 =
     (if survive ?k (spend (Suc 0) (fault w))
      then (Inr (), w\<lparr>blocks := (blocks w)(?nb \<mapsto> cells_of ys ?k), next_block := Suc ?nb,
                      fault := spend ?k (spend (Suc 0) (fault w))\<rparr>)
      else (Inl (ElementFailure CopyConstruct),
            w\<lparr>blocks := (blocks w)(?nb \<mapsto> replicate ?k Raw), next_block := Suc ?nb, fault := None\<rparr>))"
    by simp
  have rel: "Deallocate (Ptr (Some ?nb) 0)
       (w\<lparr>blocks := (blocks w)(?nb \<mapsto> replicate ?k Raw), next_block := Suc ?nb, fault := None\<rparr>) =
      (Inr (), w\<lparr>next_block := Suc ?nb, fault := None\<rparr>)"
    using fr by (subst Deallocate_block[where cs = "replicate ?k Raw"]) (auto simp: fresh_next_def fun_upd_idem)
  show ?thesis
    by (simp add: Vector_copy_ctor_def sz bind_def[of "RawMemory_ctor _ _"] RawMemory_ctor_char[OF k0 fit]
          try_catch_def GetAddress_def[of "\<lparr>buffer_m = _, capacity_m = _\<rparr>"]
          bind_def[of "uninitialized_copy_n _ _ _"] cp ret_def RawMemory_dtor_def
          bind_def[of "Deallocate _"] rel throw_def)
qed

lemma vec_holds_same_block:
  assumes "vec_holds w other ys cap'" "vectors w' other = vectors w other"
          "\<And>b. base (buffer_m (data_m (vectors w other))) = Some b \<Longrightarrow> blocks w' b = blocks w b"
  shows "vec_holds w' other ys cap'"
  using assms by (auto simp: vec_holds_def split: ptr.splits option.splits)

text \<open>Copy assignment in place, into a sequence that has a buffer.\<close>

lemma Vector_copy_assign_in_place:
  assumes hv: "vec_holds w this xs cap" and ho: "vec_holds w other ys cap'"
      and ne: "this \<noteq> other" and sep: "separate_buffers w this other"
      and le: "length ys \<le> cap" and c: "cap \<noteq> 0"
      and buf: "buffer_m (data_m (vectors w this)) = Ptr (Some a) 0"
  shows "(if survive (length ys) (fault w)
          then Vector_copy_assign T this other w =
            (Inr (), w\<lparr>vectors := (vectors w)(this := (vectors w this)\<lparr>size_m := length ys\<rparr>),
                       blocks := (blocks w)(a \<mapsto> cells_of ys cap),
                       fault := spend (length ys) (fault w)\<rparr>)
          else fst (Vector_copy_assign T this other w) =
                 Inl (ElementFailure (if survive (min (length xs) (length ys)) (fault w)
                                      then CopyConstruct else CopyAssign)))"
proof -
  from hv c buf have v: "data_m (vectors w this) = \<lparr>buffer_m = Ptr (Some a) 0, capacity_m = cap\<rparr>"
    and ba: "blocks w a = Some (cells_of xs cap)" and sz: "size_m (vectors w this) = length xs"
    and lx: "length xs \<le> cap"
    by (auto elim!: vec_holds_block)
  let ?m = "length xs" and ?k = "length ys"
  have lo: "?k \<le> cap'" and so: "Size (vectors w other) = ?k"
    using ho by (simp_all add: vec_holds_def Size_def)
  from sep buf have sep': "base (buffer_m (data_m (vectors w other))) \<noteq> Some a"
    by (auto simp: separate_buffers_def)
  let ?src = "cells_of ys cap'"
  let ?go = "GetAddress (data_m (vectors w other))"
  show ?thesis
  proof (cases "?k < ?m")
    case True
    let ?D1 = "blit ?src 0 ?k (cells_of xs cap) 0"
    let ?w1 = "w\<lparr>blocks := (blocks w)(a \<mapsto> ?D1), fault := spend ?k (fault w)\<rparr>"
    have sc: "(if survive ?k (fault w)
          then std_copy ?go (ptr_add ?go ?k) (Ptr (Some a) 0) w = (Inr (), ?w1)
          else fst (std_copy ?go (ptr_add ?go ?k) (Ptr (Some a) 0) w) = Inl (ElementFailure CopyAssign))"
      using True lx by (intro std_copy_from_vec[OF ho ba sep']) (auto simp: live_cells_of)
    have dn: "destroy_n (Ptr (Some a) ?k) (?m - ?k) ?w1 =
        (Inr (), ?w1\<lparr>blocks := (blocks ?w1)(a \<mapsto> wipe ?D1 ?k (?m - ?k))\<rparr>)"
      using True lx by (intro destroy_n_char) (auto simp: nth_blit live_cells_of)
    have fin: "wipe ?D1 ?k (?m - ?k) = cells_of ys cap"
      using True lx lo by (rule assigned_cells_shrink)
    have unf: "Vector_copy_assign T this other w =
        bind (bind (std_copy ?go (ptr_add ?go ?k) (Ptr (Some a) 0)) (\<lambda>_.
                destroy_n (Ptr (Some a) ?k) (?m - ?k)))
             (\<lambda>_. put_vec this ((vectors w this)\<lparr>size_m := ?k\<rparr>)) w"
      using ne le True v sz so
      by (simp add: Vector_copy_assign_def bind_def[of "get_vec _" _ w] get_vec_def Let_def
            Capacity_def RawMemory_Capacity_def GetAddress_def[of "\<lparr>buffer_m = _, capacity_m = _\<rparr>"])
    show ?thesis
    proof (cases "survive ?k (fault w)")
      case s: True
      with sc have "std_copy ?go (ptr_add ?go ?k) (Ptr (Some a) 0) w = (Inr (), ?w1)" by simp
      with s dn show ?thesis
        by (simp add: unf bind_def fin put_vec_def)
    next
      case False
      with sc obtain w2 where "std_copy ?go (ptr_add ?go ?k) (Ptr (Some a) 0) w =
          (Inl (ElementFailure CopyAssign), w2)"
        by (metis prod.collapse)
      with False True show ?thesis
        by (simp add: unf bind_def min_def)
    qed
  next
    case False
    then have mk: "?m \<le> ?k" by simp
    let ?D1 = "blit ?src 0 ?m (cells_of xs cap) 0"
    let ?w1 = "w\<lparr>blocks := (blocks w)(a \<mapsto> ?D1), fault := spend ?m (fault w)\<rparr>"
    have sc: "(if survive ?m (fault w)
          then std_copy ?go (ptr_add ?go ?m) (Ptr (Some a) 0) w = (Inr (), ?w1)
          else fst (std_copy ?go (ptr_add ?go ?m) (Ptr (Some a) 0) w) = Inl (ElementFailure CopyAssign))"
      using mk lx by (intro std_copy_from_vec[OF ho ba sep']) (auto simp: live_cells_of)
    have ho1: "vec_holds ?w1 other ys cap'"
      using ho sep' by (intro vec_holds_same_block[OF ho]) auto
    have "uninitialized_copy_n (ptr_add (GetAddress (data_m (vectors ?w1 other))) ?m) (?k - ?m)
            (Ptr (Some a) ?m) ?w1 =
       (if survive (?k - ?m) (fault ?w1)
        then (Inr (), ?w1\<lparr>blocks := (blocks ?w1)(a \<mapsto> blit ?src ?m (?k - ?m) ?D1 ?m),
                      fault := spend (?k - ?m) (fault ?w1)\<rparr>)
        else (Inl (ElementFailure CopyConstruct), ?w1\<lparr>fault := None\<rparr>))"
      using mk lx le sep' by (intro uninitialized_copy_from_vec[OF ho1]) (auto simp: nth_blit raw_cells_of)
    moreover have "blit ?src ?m (?k - ?m) ?D1 ?m = cells_of ys cap"
      using mk le lo by (rule assigned_cells_grow)
    moreover have "spend (?k - ?m) (spend ?m (fault w)) = spend ?k (fault w)"
      using mk by (simp add: spend_spend)
    ultimately have uc: "uninitialized_copy_n (ptr_add ?go ?m) (?k - ?m) (Ptr (Some a) ?m) ?w1 =
       (if survive (?k - ?m) (spend ?m (fault w))
        then (Inr (), w\<lparr>blocks := (blocks w)(a \<mapsto> cells_of ys cap), fault := spend ?k (fault w)\<rparr>)
        else (Inl (ElementFailure CopyConstruct),
              w\<lparr>blocks := (blocks w)(a \<mapsto> ?D1), fault := None\<rparr>))"
      by simp
    have sk: "survive ?k (fault w) \<longleftrightarrow> survive ?m (fault w) \<and> survive (?k - ?m) (spend ?m (fault w))"
      using survive_add[of ?m "?k - ?m" "fault w"] mk by simp
    have unf: "Vector_copy_assign T this other w =
        bind (bind (std_copy ?go (ptr_add ?go ?m) (Ptr (Some a) 0)) (\<lambda>_.
                uninitialized_copy_n (ptr_add ?go ?m) (?k - ?m) (Ptr (Some a) ?m)))
             (\<lambda>_. put_vec this ((vectors w this)\<lparr>size_m := ?k\<rparr>)) w"
      using ne le False v sz so
      by (simp add: Vector_copy_assign_def bind_def[of "get_vec _" _ w] get_vec_def Let_def
            Capacity_def RawMemory_Capacity_def GetAddress_def[of "\<lparr>buffer_m = _, capacity_m = _\<rparr>"])
    show ?thesis
    proof (cases "survive ?m (fault w)")
      case s: True
      with sc have s1: "std_copy ?go (ptr_add ?go ?m) (Ptr (Some a) 0) w = (Inr (), ?w1)" by simp
      show ?thesis
      proof (cases "survive (?k - ?m) (spend ?m (fault w))")
        case True
        with s s1 uc show ?thesis
          by (simp add: unf bind_def sk put_vec_def)
      next
        case False
        with s s1 uc mk show ?thesis
          by (simp add: unf bind_def sk min_def)
      qed
    next
      case False
      with sc obtain w2 where "std_copy ?go (ptr_add ?go ?m) (Ptr (Some a) 0) w =
          (Inl (ElementFailure CopyAssign), w2)"
        by (metis prod.collapse)
      with False mk show ?thesis
        by (simp add: unf bind_def sk min_def)
    qed
  qed
qed

text \<open>Copy assignment from a sequence larger than the capacity: copy and swap.\<close>

lemma Vector_copy_assign_swap:
  assumes hv: "vec_holds w this xs cap" and ho: "vec_holds w other ys cap'"
      and ne: "this \<noteq> other" and sep: "separate_buffers w this other"
      and fr: "fresh_next w" and gt: "cap < length ys" and fit: "fits T (length ys)"
  shows "\<exists>B. Vector_copy_assign T this other w =
     (if \<not> survive (Suc 0) (fault w) then (Inl AllocationFailure, w\<lparr>fault := None\<rparr>)
      else if \<not> survive (length ys) (spend (Suc 0) (fault w))
      then (Inl (ElementFailure CopyConstruct), w\<lparr>next_block := Suc (next_block w), fault := None\<rparr>)
      else (Inr (),
            w\<lparr>vectors := (vectors w)(this :=
                 \<lparr>data_m = \<lparr>buffer_m = Ptr (Some (next_block w)) 0, capacity_m = length ys\<rparr>,
                  size_m = length ys\<rparr>),
              blocks := B,
              next_block := Suc (next_block w),
              fault := spend (length ys) (spend (Suc 0) (fault w))\<rparr>)) \<and>
     B (next_block w) = Some (cells_of ys (length ys)) \<and>
     (\<forall>b. b \<noteq> next_block w \<and> base (buffer_m (data_m (vectors w this))) \<noteq> Some b \<longrightarrow>
          B b = blocks w b)"
proof -
  let ?nb = "next_block w" and ?k = "length ys" and ?m = "length xs"
  have k: "ys \<noteq> []" using gt by auto
  have so: "Size (vectors w other) = ?k" using ho by (simp add: vec_holds_def Size_def)
  have cp: "capacity_m (data_m (vectors w this)) = cap" and sz: "size_m (vectors w this) = ?m"
    and lx: "?m \<le> cap"
    using hv by (simp_all add: vec_holds_def)
  let ?oc = "\<lparr>data_m = \<lparr>buffer_m = Ptr (Some ?nb) 0, capacity_m = ?k\<rparr>, size_m = ?k\<rparr>"
  let ?w2 = "w\<lparr>blocks := (blocks w)(?nb \<mapsto> cells_of ys ?k), next_block := Suc ?nb,
               fault := spend ?k (spend (Suc 0) (fault w))\<rparr>"
  note CC = Vector_copy_ctor_char[OF ho fr k fit]
  have unf: "Vector_copy_assign T this other w =
      bind (Vector_copy_ctor T (vectors w other)) (\<lambda>other_copy.
         case Swap_vals (vectors w this) other_copy of
           (v', other_copy') \<Rightarrow>
             bind (put_vec this v') (\<lambda>_.
             Vector_dtor other_copy')) w"
    using ne gt cp so
    by (simp add: Vector_copy_assign_def bind_def[of "get_vec _" _ w] get_vec_def Let_def
          Capacity_def RawMemory_Capacity_def)
  have sw: "Swap_vals (vectors w this) ?oc =
      (?oc, \<lparr>data_m = data_m (vectors w this), size_m = ?m\<rparr>)"
    using sz by (cases "data_m (vectors w this)") (simp add: Swap_vals_def RawMemory_Swap_def)
  let ?w3 = "?w2\<lparr>vectors := (vectors w)(this := ?oc)\<rparr>"
  show ?thesis
  proof (cases "cap = 0")
    case True
    with hv have h0: "vec_holds w this xs 0" by simp
    note v = vec_holds_null[OF h0]
    have dt: "Vector_dtor \<lparr>data_m = data_m (vectors w this), size_m = ?m\<rparr> ?w3 = (Inr (), ?w3)"
      using v by (simp add: Vector_dtor_null)
    have "Vector_copy_assign T this other w =
     (if \<not> survive (Suc 0) (fault w) then (Inl AllocationFailure, w\<lparr>fault := None\<rparr>)
      else if \<not> survive ?k (spend (Suc 0) (fault w))
      then (Inl (ElementFailure CopyConstruct), w\<lparr>next_block := Suc ?nb, fault := None\<rparr>)
      else (Inr (),
            w\<lparr>vectors := (vectors w)(this := ?oc),
              blocks := (blocks w)(?nb \<mapsto> cells_of ys ?k),
              next_block := Suc ?nb,
              fault := spend ?k (spend (Suc 0) (fault w))\<rparr>))"
      using dt
      by (simp add: unf bind_def[of "Vector_copy_ctor _ _"] CC sw bind_def[of "put_vec _ _"] put_vec_def)
    then show ?thesis
      by (intro exI[where x = "(blocks w)(?nb \<mapsto> cells_of ys ?k)"]) simp
  next
    case False
    with hv obtain a where v: "data_m (vectors w this) = \<lparr>buffer_m = Ptr (Some a) 0, capacity_m = cap\<rparr>"
      and ba: "blocks w a = Some (cells_of xs cap)"
      by (auto elim!: vec_holds_block)
    have na: "a \<noteq> ?nb" using fr ba by (auto simp: fresh_next_def)
    have dt: "Vector_dtor \<lparr>data_m = \<lparr>buffer_m = Ptr (Some a) 0, capacity_m = cap\<rparr>, size_m = ?m\<rparr> ?w3 =
        (Inr (), ?w3\<lparr>blocks := (blocks ?w3)(a := None)\<rparr>)"
      using ba na lx by (intro Vector_dtor_block) auto
    have "Vector_copy_assign T this other w =
     (if \<not> survive (Suc 0) (fault w) then (Inl AllocationFailure, w\<lparr>fault := None\<rparr>)
      else if \<not> survive ?k (spend (Suc 0) (fault w))
      then (Inl (ElementFailure CopyConstruct), w\<lparr>next_block := Suc ?nb, fault := None\<rparr>)
      else (Inr (),
            w\<lparr>vectors := (vectors w)(this := ?oc),
              blocks := (blocks w)(?nb \<mapsto> cells_of ys ?k, a := None),
              next_block := Suc ?nb,
              fault := spend ?k (spend (Suc 0) (fault w))\<rparr>))"
      using dt v
      by (simp add: unf bind_def[of "Vector_copy_ctor _ _"] CC sw bind_def[of "put_vec _ _"] put_vec_def)
    then show ?thesis
      using na v by (intro exI[where x = "(blocks w)(?nb \<mapsto> cells_of ys ?k, a := None)"]) auto
  qed
qed

text \<open>Copy assignment between two sequences without buffers.\<close>

lemma Vector_copy_assign_empty:
  assumes hv: "vec_holds w this xs 0" and ho: "vec_holds w other ys cap'"
      and ne: "this \<noteq> other" and le: "length ys = 0"
  shows "Vector_copy_assign T this other w = (Inr (), w)"
proof -
  note v = vec_holds_null[OF hv]
  have so: "Size (vectors w other) = 0" using ho le by (simp add: vec_holds_def Size_def)
  have vv: "(vectors w)(this := (vectors w this)\<lparr>size_m := 0\<rparr>) = vectors w"
    using v by (cases "vectors w this") (auto simp: fun_upd_idem)
  have pa: "ptr_add p 0 = p" for p by (cases p) simp
  show ?thesis
    using ne v so
    by (simp add: Vector_copy_assign_def bind_def get_vec_def Let_def Capacity_def
          RawMemory_Capacity_def std_copy_def valid_range_def pa ret_def put_vec_def vv)
qed

section \<open>RawMemory: moves\<close>

text \<open>
  The move constructor hands the pointer and the capacity over and leaves its source null
  with capacity zero.
\<close>

lemma RawMemory_move_ctor_transfers:
  "RawMemory_move_ctor r = (r', s) \<Longrightarrow>
     buffer_m r' = buffer_m r \<and> capacity_m r' = capacity_m r \<and>
     buffer_m s = nullptr \<and> capacity_m s = 0"
  by (auto simp: RawMemory_move_ctor_def)

text \<open>
  C3. Move assignment of \<open>RawMemory\<close> does not zero its source. Assigning buffer 1 (capacity
  3) to buffer 0 (capacity 2) releases the allocation of buffer 0 and then swaps: buffer 0
  takes over the allocation of buffer 1, while buffer 1 is left with capacity zero and the
  pointer buffer 0 had, which is not null and points to released storage. The destructor of
  buffer 1 then releases that storage a second time.
\<close>

theorem RawMemory_move_assign_leaves_dangling_source:
  "(case RawMemory_move_assign 0 1 (two_buffers :: nat world) of
      (r, w') \<Rightarrow>
        r = Inr () \<and>
        rawmems w' 0 = \<lparr>buffer_m = Ptr (Some 1) 0, capacity_m = 3\<rparr> \<and>
        rawmems w' 1 = \<lparr>buffer_m = Ptr (Some 0) 0, capacity_m = 0\<rparr> \<and>
        buffer_m (rawmems w' 1) \<noteq> nullptr \<and>
        blocks w' 0 = None \<and>
        fst (RawMemory_dtor (rawmems w' 1) w') = Inl (InvalidFree (Ptr (Some 0) 0)))"
  by (simp add: model_defs example_defs)

section \<open>Failures during an append or an insertion\<close>

text \<open>
  C1. \<open>EmplaceBack\<close> on a full sequence whose relocation copies: the sequence holds \<open>a\<close> in
  capacity 1, and the first copy of the relocation throws. The call throws, and the
  sequence and the free store are as before; but the fresh buffer is released while the new
  element built in it is still alive: its destructor never runs (one object is leaked). The
  reallocating path of \<open>Emplace\<close>, inserting at the end of the same sequence, destroys the
  new element before the buffer is released.
\<close>

theorem EmplaceBack_relocation_failure_leaks_new_element:
  "(let w = (push_all copying_T 0 [''a''] world0)\<lparr>fault := Some 2\<rparr> in
    vec_holds w 0 [''a''] 1 \<and> leaked w = 0 \<and>
    (case EmplaceBack copying_T 0 ''b'' w of
       (r, w') \<Rightarrow>
         r = Inl (ElementFailure CopyConstruct) \<and>
         vectors w' = vectors w \<and> blocks w' = blocks w \<and> vec_holds w' 0 [''a''] 1 \<and>
         leaked w' = 1) \<and>
    (case Emplace copying_T 0 (vend (vectors w 0)) ''b'' w of
       (r, w') \<Rightarrow>
         r = Inl (ElementFailure CopyConstruct) \<and>
         vectors w' = vectors w \<and> blocks w' = blocks w \<and> leaked w' = 0))"
  by (simp add: model_defs example_defs)

text \<open>
  C2. \<open>Emplace\<close> in place, when the constructor of the new element throws: the sequence
  holds 10, 20 in capacity 4 and 5 is to be inserted at the front. The tail has been shifted
  and cell 0 destroyed when the constructor runs; after the throw the size is still 2, but
  cell 0 holds no object and cell 2 holds one: the live cells are not the cells below the
  size, and reading element 0 is an invalid access.
\<close>

theorem Emplace_in_place_constructor_failure_breaks_invariant:
  "(let w = (snd (Reserve trivial_T 0 4 (push_all trivial_T 0 [10, 20] world0)))
              \<lparr>fault := Some 2\<rparr> in
    vec_holds w 0 [10, 20] 4 \<and>
    (case Emplace trivial_T 0 (vbegin (vectors w 0)) 5 w of
       (r, w') \<Rightarrow>
         r = Inl (ElementFailure Construct) \<and>
         Size (vectors w' 0) = 2 \<and> Capacity (vectors w' 0) = 4 \<and>
         blocks w' 2 = Some [Raw, Live 10, Live 20, Raw] \<and>
         \<not> vec_holds w' 0 [10, 20] 4 \<and>
         fst (Index 0 0 w') = Inl (InvalidAccess (Ptr (Some 2) 0))))"
  by (simp add: model_defs example_defs)

text \<open>
  When it is the tail shift that throws, the handler destroys the extra cell and the size is
  unchanged: exactly the cells below the size are live, one of them in its moved-from state.
  Here the sequence of strings \<open>a\<close>, \<open>b\<close> in capacity 4 is left holding \<open>a\<close> and the empty
  string.
\<close>

lemma Emplace_in_place_shift_failure:
  "(let w = (snd (Reserve string_T 0 4 (push_all string_T 0 [''a'', ''b''] world0)))
              \<lparr>fault := Some 1\<rparr> in
    (case Emplace string_T 0 (vbegin (vectors w 0)) ''z'' w of
       (r, w') \<Rightarrow>
         r = Inl (ElementFailure MoveAssign) \<and>
         vec_holds w' 0 [''a'', [] ] 4 \<and> leaked w' = 0))"
  by (simp add: model_defs example_defs)

text \<open>
  C5. \<open>Emplace\<close> in place shifts the range up to the end of the sequence, the last element
  included, although that element has just been moved from to build cell \<open>size\<close>: the sequence
  of strings \<open>a\<close>, \<open>b\<close> in capacity 4 becomes \<open>z\<close>, \<open>a\<close> and the empty string when \<open>z\<close> is
  inserted at the front, and \<open>a\<close>, the empty string and \<open>z\<close> when it is inserted at the end
  (by \<open>Insert\<close>, which forwards to \<open>Emplace\<close>).
\<close>

theorem Emplace_in_place_loses_last_element:
  "(let w = snd (Reserve string_T 0 4 (push_all string_T 0 [''a'', ''b''] world0)) in
    vec_holds w 0 [''a'', ''b''] 4 \<and>
    (case Emplace string_T 0 (vbegin (vectors w 0)) ''z'' w of
       (r, w') \<Rightarrow>
         r = Inr (vbegin (vectors w' 0)) \<and>
         vec_holds w' 0 [''z'', ''a'', ''''] 4 \<and>
         fst (Index 0 2 w') = Inr '''') \<and>
    (case Insert string_T 0 (vend (vectors w 0)) ''z'' w of
       (r, w') \<Rightarrow>
         r = Inr (ptr_add (vbegin (vectors w' 0)) 2) \<and>
         vec_holds w' 0 [''a'', '''', ''z''] 4 \<and>
         fst (Index 0 1 w') = Inr ''''))"
  by (simp add: model_defs example_defs)

section \<open>Move construction\<close>

text \<open>
  C9. Move construction \<open>Vector b(std::move(a))\<close>: \<open>b\<close> holds the former elements of \<open>a\<close> in
  order (in the buffer \<open>a\<close> had), and \<open>a\<close> is empty with size 0 and capacity 0.
\<close>

theorem Vector_move_ctor_takes_over:
  assumes "vec_holds w a xs cap" and "b \<noteq> a"
  shows "\<exists>w'. Vector_move_ctor b a w = (Inr (), w') \<and>
           vec_holds w' b xs cap \<and> vec_holds w' a [] 0 \<and>
           Size (vectors w' a) = 0 \<and> Capacity (vectors w' a) = 0 \<and>
           blocks w' = blocks w"
  using assms
  by (auto simp: Vector_move_ctor_def Swap_def Swap_vals_def RawMemory_Swap_def put_vec_def
        bind_def Vector_default_def RawMemory_default_def nullptr_def vec_holds_def Size_def
        Capacity_def RawMemory_Capacity_def cells_of_def split: ptr.splits option.splits)

theorem Vector_move_ctor_takes_over_witness:
  "(let w = push_all trivial_T 0 [1, 2, 3] world0 in
    vec_holds w 0 [1, 2, 3] 4 \<and>
    (\<exists>w'. Vector_move_ctor 1 0 w = (Inr (), w') \<and>
       vec_holds w' 1 [1, 2, 3] 4 \<and> vec_holds w' 0 [] 0 \<and>
       Size (vectors w' 0) = 0 \<and> Capacity (vectors w' 0) = 0 \<and> blocks w' = blocks w))"
proof -
  have h: "vec_holds (push_all trivial_T 0 [1, 2, 3] world0) 0 [1, 2, 3] 4"
    by (simp add: model_defs example_defs)
  have d: "(1::nat) \<noteq> 0" by simp
  show ?thesis
    using h Vector_move_ctor_takes_over [OF h d] by (simp add: Let_def)
qed

section \<open>Erase at the end\<close>

text \<open>
  C10. \<open>Erase\<close> called with \<open>pos == end()\<close>: the assertion \<open>pos >= cbegin() && pos <= cend()\<close>
  holds, so the call is not stopped there, and the shift is asked to move the range from
  \<open>end() + 1\<close> to \<open>end()\<close>, which starts one cell past the end of the live cells. This holds
  for every sequence in every world.
\<close>

theorem Erase_at_end_passes_assertion:
  "Erase T this (cend (vectors w this)) w =
     (Inl (InvalidRange (ptr_add (vend (vectors w this)) 1) (vend (vectors w this))), w) \<and>
   fst (Erase T this (cend (vectors w this)) w) \<noteq> Inl AssertionFailure \<and>
   off (ptr_add (vend (vectors w this)) 1) =
     off (vbegin (vectors w this)) + Size (vectors w this) + 1"
  by (cases "buffer_m (data_m (vectors w this))")
     (simp add: Erase_def bind_def get_vec_def cbegin_def cend_def vbegin_def vend_def
        GetAddress_def ptr_le_def ptr_diff_def std_move_def valid_range_def throw_def Size_def
        Let_def)

section \<open>Appending\<close>

text \<open>
  C4. For a sequence holding \<open>xs\<close> in capacity \<open>cap\<close>: \<open>PushBack x\<close> returns when nothing
  throws, and whenever it returns the sequence holds \<open>xs\<close> followed by \<open>x\<close>: the size is one
  more, the last element is \<open>x\<close>, the earlier elements are what they were, and the capacity
  is \<open>max 1 (2 * cap)\<close> when the sequence was full and \<open>cap\<close> otherwise. A full sequence
  grows into a buffer whose byte count \<open>size_t\<close> represents, as is the case whenever the
  present buffer has no more than \<open>PTRDIFF_MAX\<close> bytes. Starting from the empty sequence, the
  capacities before and after each of the ten calls \<open>PushBack i\<close> for \<open>i = 0..9\<close> are
  0, 1, 2, 4, 4, 8, 8, 8, 8, 16, 16; the final size is 10 and element \<open>i\<close> is \<open>i\<close>.
\<close>

theorem PushBack_spec:
  "(vec_holds w this xs cap \<and> fresh_next w \<and>
    (length xs = cap \<longrightarrow> fits T (max 1 (2 * cap))) \<longrightarrow>
      (fault w = None \<longrightarrow> (\<exists>w'. PushBack T this x w = (Inr (), w'))) \<and>
      (\<forall>w'. PushBack T this x w = (Inr (), w') \<longrightarrow>
         vec_holds w' this (xs @ [x]) (if length xs = cap then max 1 (2 * cap) else cap) \<and>
         Size (vectors w' this) = Suc (length xs) \<and>
         Capacity (vectors w' this) = (if length xs = cap then max 1 (2 * cap) else cap) \<and>
         Index this (length xs) w' = (Inr x, w') \<and>
         (\<forall>i<length xs. Index this i w' = (Inr (xs ! i), w')) \<and>
         leaked w' = leaked w)) \<and>
   map (\<lambda>k. Capacity (vectors (push_all trivial_T 0 [0..<k] world0) 0)) [0..<11] =
     [0, 1, 2, 4, 4, 8, 8, 8, 8, 16, 16] \<and>
   Size (vectors (push_all trivial_T 0 [0..<10] world0) 0) = 10 \<and>
   (\<forall>i<10. Index 0 i (push_all trivial_T 0 [0..<10] world0) =
              (Inr i, push_all trivial_T 0 [0..<10] world0))"
proof (intro conjI impI allI)
  assume a: "vec_holds w this xs cap \<and> fresh_next w \<and>
    (length xs = cap \<longrightarrow> fits T (max 1 (2 * cap)))"
  then have h: "vec_holds w this xs cap" and fr: "fresh_next w"
    and fit: "length xs = cap \<longrightarrow> fits T (max 1 (2 * cap))" by simp_all
  note E = EmplaceBack_ok[OF h fr fit, of x]
  {
    assume "fault w = None"
    with E obtain p w' where "EmplaceBack T this x w = (Inr p, w')" by blast
    then have "PushBack T this x w = (Inr (), w')" by (simp add: PushBack_Inr)
    then show "\<exists>w'. PushBack T this x w = (Inr (), w')" by blast
  }
  fix w' assume "PushBack T this x w = (Inr (), w')"
  then obtain p where ok: "EmplaceBack T this x w = (Inr p, w')" by (auto simp: PushBack_Inr)
  with E have v: "vec_holds w' this (xs @ [x]) (if length xs = cap then max 1 (2 * cap) else cap)"
    and l: "leaked w' = leaked w" by blast+
  show "vec_holds w' this (xs @ [x]) (if length xs = cap then max 1 (2 * cap) else cap)"
    by (rule v)
  show "leaked w' = leaked w" by (rule l)
  show "Size (vectors w' this) = Suc (length xs)"
    using v by (simp add: vec_holds_def Size_def)
  show "Capacity (vectors w' this) = (if length xs = cap then max 1 (2 * cap) else cap)"
    using v by (simp add: vec_holds_def Capacity_def RawMemory_Capacity_def)
  show "Index this (length xs) w' = (Inr x, w')"
    using Index_vec_holds[OF v, of "length xs"] by simp
  fix i assume "i < length xs"
  then show "Index this i w' = (Inr (xs ! i), w')"
    using Index_vec_holds[OF v, of i] by (simp add: nth_append)
next
  show "map (\<lambda>k. Capacity (vectors (push_all trivial_T 0 [0..<k] world0) 0)) [0..<11] =
     [0, 1, 2, 4, 4, 8, 8, 8, 8, 16, 16]"
    by (rule growth_trace)
  show "Size (vectors (push_all trivial_T 0 [0..<10] world0) 0) = 10"
    using ten_appends by blast
  fix i :: nat assume "i < 10"
  then show "Index 0 i (push_all trivial_T 0 [0..<10] world0) =
              (Inr i, push_all trivial_T 0 [0..<10] world0)"
    using ten_appends by blast
qed

theorem PushBack_spec_witness:
  "vec_holds (push_all trivial_T 0 [1, 2, 3, 4] world0) 0 [1, 2, 3, 4] 4 \<and>
   fresh_next (push_all trivial_T 0 [1, 2, 3, 4] world0) \<and>
   fits trivial_T 8 \<and>
   (\<exists>w'. PushBack trivial_T 0 5 (push_all trivial_T 0 [1, 2, 3, 4] world0) = (Inr (), w') \<and>
      vec_holds w' 0 [1, 2, 3, 4, 5] 8 \<and> Size (vectors w' 0) = 5 \<and>
      Capacity (vectors w' 0) = 8 \<and> Index 0 4 w' = (Inr 5, w') \<and>
      Index 0 0 w' = (Inr 1, w'))"
proof -
  let ?W = "push_all trivial_T 0 [1, 2, 3, 4] world0"
  have h: "vec_holds ?W 0 [1, 2, 3, 4] 4" and f: "fresh_next ?W" and n: "fault ?W = None"
    by (simp_all add: model_defs example_defs)
  have fit8: "fits trivial_T 8" by (simp add: fits_def trivial_T_def size_limit_def)
  then have fit: "length [1, 2, 3, 4 :: nat] = 4 \<longrightarrow> fits trivial_T (max 1 (2 * 4))"
    by simp
  note P = PushBack_spec [where w = ?W and this = 0 and xs = "[1, 2, 3, 4]" and cap = 4
      and T = trivial_T and x = 5, THEN conjunct1, rule_format, OF conjI [OF h conjI [OF f fit]]]
  from P n obtain w' where ok: "PushBack trivial_T 0 5 ?W = (Inr (), w')" by blast
  note Q = P [THEN conjunct2, rule_format, OF ok]
  from Q have 1: "vec_holds w' 0 [1, 2, 3, 4, 5] 8" by simp
  from Q have 2: "Size (vectors w' 0) = 5" "Capacity (vectors w' 0) = 8" by simp_all
  from Q have 3: "Index 0 (length [1, 2, 3, 4 :: nat]) w' = (Inr 5, w')" by blast
  from Q have 4: "Index 0 0 w' = (Inr ([1, 2, 3, 4] ! 0), w')" by simp
  from 3 have 5: "Index 0 4 w' = (Inr 5, w')" by (simp add: eval_nat_numeral)
  from h f fit8 ok 1 2 4 5 show ?thesis by simp
qed

section \<open>Erasing\<close>

text \<open>
  C6. For a sequence holding \<open>xs\<close> and an offset \<open>d\<close> below its size: \<open>Erase (begin() + d)\<close>
  returns when nothing throws, and whenever it returns the size is one less, the elements
  below \<open>d\<close> are what they were, the elements formerly at \<open>d + 1\<close> and above are one place
  lower with their values unchanged, the capacity is unchanged, and the result is the address
  of cell \<open>d\<close>: it holds the element formerly at \<open>d + 1\<close> when there is one, and is
  \<open>end()\<close> otherwise.
\<close>

theorem Erase_spec:
  "vec_holds w this xs cap \<and> d < length xs \<longrightarrow>
     (fault w = None \<longrightarrow>
        (\<exists>p w'. Erase T this (ptr_add (vbegin (vectors w this)) d) w = (Inr p, w'))) \<and>
     (\<forall>p w'. Erase T this (ptr_add (vbegin (vectors w this)) d) w = (Inr p, w') \<longrightarrow>
        vec_holds w' this (take d xs @ drop (Suc d) xs) cap \<and>
        Size (vectors w' this) = length xs - 1 \<and>
        (\<forall>i<d. Index this i w' = (Inr (xs ! i), w')) \<and>
        (\<forall>i. d \<le> i \<and> Suc i < length xs \<longrightarrow> Index this i w' = (Inr (xs ! Suc i), w')) \<and>
        p = ptr_add (vbegin (vectors w' this)) d \<and>
        (Suc d < length xs \<longrightarrow> load p w' = (Inr (xs ! Suc d), w')) \<and>
        (Suc d = length xs \<longrightarrow> p = vend (vectors w' this)) \<and>
        leaked w' = leaked w)"
proof (intro impI)
  assume a: "vec_holds w this xs cap \<and> d < length xs"
  then have h: "vec_holds w this xs cap" and d: "d < length xs" by simp_all
  let ?ys = "take d xs @ drop (Suc d) xs"
  let ?n = "length xs - Suc d"
  have ly: "length ?ys = length xs - 1" using d by simp
  from Erase_char[OF h d, of T] obtain a where
    buf: "buffer_m (data_m (vectors w this)) = Ptr (Some a) 0" and
    R: "(if survive ?n (fault w)
      then Erase T this (Ptr (Some a) d) w =
        (Inr (Ptr (Some a) d),
         w\<lparr>vectors := (vectors w)(this := (vectors w this)\<lparr>size_m := length xs - 1\<rparr>),
           blocks := (blocks w)(a \<mapsto> cells_of ?ys cap),
           fault := spend ?n (fault w)\<rparr>)
      else isl (fst (Erase T this (Ptr (Some a) d) w)))"
    by blast
  have pos: "ptr_add (vbegin (vectors w this)) d = Ptr (Some a) d"
    using buf by (simp add: vbegin_def GetAddress_def)
  show "(fault w = None \<longrightarrow>
        (\<exists>p w'. Erase T this (ptr_add (vbegin (vectors w this)) d) w = (Inr p, w'))) \<and>
     (\<forall>p w'. Erase T this (ptr_add (vbegin (vectors w this)) d) w = (Inr p, w') \<longrightarrow>
        vec_holds w' this ?ys cap \<and>
        Size (vectors w' this) = length xs - 1 \<and>
        (\<forall>i<d. Index this i w' = (Inr (xs ! i), w')) \<and>
        (\<forall>i. d \<le> i \<and> Suc i < length xs \<longrightarrow> Index this i w' = (Inr (xs ! Suc i), w')) \<and>
        p = ptr_add (vbegin (vectors w' this)) d \<and>
        (Suc d < length xs \<longrightarrow> load p w' = (Inr (xs ! Suc d), w')) \<and>
        (Suc d = length xs \<longrightarrow> p = vend (vectors w' this)) \<and>
        leaked w' = leaked w)"
    unfolding pos
  proof (intro conjI impI allI)
    assume "fault w = None"
    with R show "\<exists>p w'. Erase T this (Ptr (Some a) d) w = (Inr p, w')" by simp
  next
    fix p w' assume ok: "Erase T this (Ptr (Some a) d) w = (Inr p, w')"
    with R have "survive ?n (fault w)" by (auto split: if_splits)
    with R ok have p: "p = Ptr (Some a) d" and
      w': "w' = w\<lparr>vectors := (vectors w)(this := (vectors w this)\<lparr>size_m := length xs - 1\<rparr>),
           blocks := (blocks w)(a \<mapsto> cells_of ?ys cap),
           fault := spend ?n (fault w)\<rparr>"
      by simp_all
    have cp: "capacity_m (data_m (vectors w this)) = cap" "length xs \<le> cap" "cap \<noteq> 0"
      using h d by (auto simp: vec_holds_def)
    show v: "vec_holds w' this ?ys cap"
      using buf cp d by (simp add: w' vec_holds_def)
    show "Size (vectors w' this) = length xs - 1" by (simp add: w' Size_def)
    show "leaked w' = leaked w" by (simp add: w')
    show "p = ptr_add (vbegin (vectors w' this)) d"
      using buf by (simp add: w' p vbegin_def GetAddress_def)
    {
      fix i assume "i < d"
      then show "Index this i w' = (Inr (xs ! i), w')"
        using Index_vec_holds[OF v, of i] d by (simp add: nth_append)
    }
    {
      fix i assume i: "d \<le> i \<and> Suc i < length xs"
      then have "i < length ?ys" unfolding ly by linarith
      from Index_vec_holds[OF v this] i d
      show "Index this i w' = (Inr (xs ! Suc i), w')"
        by (simp add: nth_append min_def)
    }
    {
      assume s: "Suc d < length xs"
      have dl: "d < length ?ys" unfolding ly using s by linarith
      have yd: "?ys ! d = xs ! Suc d" using d s by (simp add: nth_append min_def)
      have bw: "blocks w' a = Some (cells_of ?ys cap)" by (simp add: w')
      have lc: "length ?ys \<le> cap" unfolding ly using cp by linarith
      have dc: "d < cap" using dl lc by linarith
      have cell: "cells_of ?ys cap ! d = Live (?ys ! d)"
        using nth_cells_of[OF dc lc] dl by (simp only: if_True)
      have len: "d < length (cells_of ?ys cap)"
        using length_cells_of[OF lc] dc by (simp only:)
      have "load (Ptr (Some a) d) w' = (Inr (?ys ! d), w')"
        by (rule load_Live[OF bw len cell])
      then show "load p w' = (Inr (xs ! Suc d), w')"
        by (simp add: p yd)
    }
    {
      assume "Suc d = length xs"
      then show "p = vend (vectors w' this)"
        using buf by (auto simp: w' p vend_def GetAddress_def)
    }
  qed
qed

theorem Erase_spec_witness:
  "vec_holds (push_all string_T 0 [''a'', ''b'', ''c''] world0) 0 [''a'', ''b'', ''c''] 4 \<and>
   (\<exists>p w'. Erase string_T 0
             (ptr_add (vbegin (vectors (push_all string_T 0 [''a'', ''b'', ''c''] world0) 0)) 1)
             (push_all string_T 0 [''a'', ''b'', ''c''] world0) = (Inr p, w') \<and>
      vec_holds w' 0 [''a'', ''c''] 4 \<and> Size (vectors w' 0) = 2 \<and>
      p = ptr_add (vbegin (vectors w' 0)) 1 \<and> load p w' = (Inr ''c'', w'))"
proof -
  let ?W = "push_all string_T 0 [''a'', ''b'', ''c''] world0"
  have h: "vec_holds ?W 0 [''a'', ''b'', ''c''] 4" and n: "fault ?W = None"
    by (simp_all add: model_defs example_defs)
  have d: "(1::nat) < length [''a'', ''b'', ''c'']" by simp
  note P = Erase_spec [of ?W 0 "[''a'', ''b'', ''c'']" 4 1 string_T, rule_format, OF conjI [OF h d]]
  from P n obtain p w' where
    ok: "Erase string_T 0 (ptr_add (vbegin (vectors ?W 0)) 1) ?W = (Inr p, w')" by blast
  note Q = P [THEN conjunct2, rule_format, OF ok]
  from Q have 1: "vec_holds w' 0 [''a'', ''c''] 4" by simp
  from Q have 2: "Size (vectors w' 0) = 2" by simp
  from Q have 3: "p = ptr_add (vbegin (vectors w' 0)) 1" by blast
  from Q have "Suc 1 < length [''a'', ''b'', ''c''] \<longrightarrow>
      load p w' = (Inr ([''a'', ''b'', ''c''] ! Suc 1), w')" by blast
  then have 4: "load p w' = (Inr ''c'', w')" by simp
  from h ok 1 2 3 4 show ?thesis by blast
qed

section \<open>Reserve\<close>

text \<open>
  C7, as amended. For a sequence holding \<open>xs\<close> in capacity \<open>cap\<close>: \<open>Reserve n\<close> with
  \<open>n \<le> cap\<close> returns and changes nothing. With \<open>cap < n\<close> and a byte count \<open>n * sizeof(T)\<close>
  that \<open>size_t\<close> represents, it returns when nothing throws, and whenever it returns the
  sequence holds the same \<open>xs\<close>, in the same order, in the fresh buffer, with a capacity of
  exactly \<open>n\<close>, which is at least \<open>max n cap\<close>, and no object is leaked. When the call
  throws and \<open>T\<close> is nothrow move constructible or copy constructible, or the allocation is
  what failed, the sequence, the free store and the leak count are what they were. For a
  type that is neither, relocation moves with a constructor that may throw: when the move of
  element \<open>k\<close> throws, the size, the capacity and the buffer are what they were, the elements
  before \<open>k\<close> are left moved from and the others unchanged (so nothing has changed when the
  first move throws), the fresh buffer is released and no object is leaked. The allocation
  fails when the fault plan is \<open>Some 0\<close>, the relocation of element \<open>k\<close> when it is
  \<open>Some (Suc k)\<close> and moves may throw.
\<close>

theorem Reserve_spec:
  assumes h: "vec_holds w this xs cap" and fr: "fresh_next w"
  shows "(n \<le> cap \<longrightarrow> Reserve T this n w = (Inr (), w)) \<and>
         (cap < n \<and> fits T n \<longrightarrow>
            (fault w = None \<longrightarrow> (\<exists>w'. Reserve T this n w = (Inr (), w'))) \<and>
            (\<forall>w'. Reserve T this n w = (Inr (), w') \<longrightarrow>
               vec_holds w' this xs n \<and> Capacity (vectors w' this) = n \<and>
               GetAddress (data_m (vectors w' this)) = Ptr (Some (next_block w)) 0 \<and>
               max n cap \<le> Capacity (vectors w' this) \<and> leaked w' = leaked w) \<and>
            (\<forall>e w'. Reserve T this n w = (Inl e, w') \<longrightarrow>
               (nothrow_move_constructible T \<or> copy_constructible T \<or> e = AllocationFailure \<longrightarrow>
                  vec_holds w' this xs cap \<and> vectors w' = vectors w \<and> blocks w' = blocks w \<and>
                  leaked w' = leaked w) \<and>
               (\<not> nothrow_move_constructible T \<and> \<not> copy_constructible T \<and>
                e \<noteq> AllocationFailure \<longrightarrow>
                  e = ElementFailure MoveConstruct \<and>
                  (\<exists>k<length xs. fault w = Some (Suc k) \<and>
                     vec_holds w' this (moved_prefix T k xs) cap \<and> vectors w' = vectors w \<and>
                     (\<forall>b. Some b \<noteq> base (buffer_m (data_m (vectors w this))) \<longrightarrow>
                        blocks w' b = blocks w b) \<and>
                     blocks w' (next_block w) = None \<and> leaked w' = leaked w))) \<and>
            (fault w = Some 0 \<longrightarrow> fst (Reserve T this n w) = Inl AllocationFailure) \<and>
            (\<forall>k<length xs. fault w = Some (Suc k) \<and> \<not> nothrow_move_constructible T \<longrightarrow>
               fst (Reserve T this n w) =
                 Inl (ElementFailure (if copy_constructible T then CopyConstruct
                                      else MoveConstruct))))"
proof -
  have small: "Reserve T this n w = (Inr (), w)" if "n \<le> cap"
    using that h
    by (simp add: Reserve_def bind_def get_vec_def RawMemory_Capacity_def vec_holds_def ret_def)
  have big:
    "(fault w = None \<longrightarrow> (\<exists>w'. Reserve T this n w = (Inr (), w'))) \<and>
     (\<forall>w'. Reserve T this n w = (Inr (), w') \<longrightarrow>
        vec_holds w' this xs n \<and> Capacity (vectors w' this) = n \<and>
        GetAddress (data_m (vectors w' this)) = Ptr (Some (next_block w)) 0 \<and>
        max n cap \<le> Capacity (vectors w' this) \<and> leaked w' = leaked w) \<and>
     (\<forall>e w'. Reserve T this n w = (Inl e, w') \<longrightarrow>
        (nothrow_move_constructible T \<or> copy_constructible T \<or> e = AllocationFailure \<longrightarrow>
           vec_holds w' this xs cap \<and> vectors w' = vectors w \<and> blocks w' = blocks w \<and>
           leaked w' = leaked w) \<and>
        (\<not> nothrow_move_constructible T \<and> \<not> copy_constructible T \<and>
         e \<noteq> AllocationFailure \<longrightarrow>
           e = ElementFailure MoveConstruct \<and>
           (\<exists>k<length xs. fault w = Some (Suc k) \<and>
              vec_holds w' this (moved_prefix T k xs) cap \<and> vectors w' = vectors w \<and>
              (\<forall>b. Some b \<noteq> base (buffer_m (data_m (vectors w this))) \<longrightarrow>
                 blocks w' b = blocks w b) \<and>
              blocks w' (next_block w) = None \<and> leaked w' = leaked w))) \<and>
     (fault w = Some 0 \<longrightarrow> fst (Reserve T this n w) = Inl AllocationFailure) \<and>
     (\<forall>k<length xs. fault w = Some (Suc k) \<and> \<not> nothrow_move_constructible T \<longrightarrow>
        fst (Reserve T this n w) =
          Inl (ElementFailure (if copy_constructible T then CopyConstruct
                               else MoveConstruct)))"
    if n: "cap < n" and fit: "fits T n"
  proof -
    have le: "length xs \<le> n" using h n by (simp add: vec_holds_def)
    let ?nb = "next_block w"
    let ?R = "Reserve T this n w"
    consider (null) "cap = 0"
      | (copy) a where "cap \<noteq> 0" "buffer_m (data_m (vectors w this)) = Ptr (Some a) 0"
          "\<not> nothrow_move_constructible T" "copy_constructible T"
      | (nothrow) a where "cap \<noteq> 0" "buffer_m (data_m (vectors w this)) = Ptr (Some a) 0"
          "nothrow_move_constructible T"
      | (move) a where "cap \<noteq> 0" "buffer_m (data_m (vectors w this)) = Ptr (Some a) 0"
          "\<not> nothrow_move_constructible T" "\<not> copy_constructible T"
    proof (cases "cap = 0")
      case True then show ?thesis using null by simp
    next
      case False
      with h obtain a where "buffer_m (data_m (vectors w this)) = Ptr (Some a) 0"
        by (elim vec_holds_block) auto
      with False show ?thesis using copy nothrow move by blast
    qed
    then have main:
      "(fault w = None \<longrightarrow> (\<exists>w'. ?R = (Inr (), w'))) \<and>
       (\<forall>w'. ?R = (Inr (), w') \<longrightarrow>
          vec_holds w' this xs n \<and>
          data_m (vectors w' this) = \<lparr>buffer_m = Ptr (Some ?nb) 0, capacity_m = n\<rparr> \<and>
          leaked w' = leaked w) \<and>
       (\<forall>e w'. ?R = (Inl e, w') \<longrightarrow>
          (nothrow_move_constructible T \<or> copy_constructible T \<or> e = AllocationFailure \<longrightarrow>
             vectors w' = vectors w \<and> blocks w' = blocks w \<and> leaked w' = leaked w) \<and>
          (\<not> nothrow_move_constructible T \<and> \<not> copy_constructible T \<and>
           e \<noteq> AllocationFailure \<longrightarrow>
             e = ElementFailure MoveConstruct \<and>
             (\<exists>k<length xs. fault w = Some (Suc k) \<and>
                vec_holds w' this (moved_prefix T k xs) cap \<and> vectors w' = vectors w \<and>
                (\<forall>b. Some b \<noteq> base (buffer_m (data_m (vectors w this))) \<longrightarrow>
                   blocks w' b = blocks w b) \<and>
                blocks w' ?nb = None \<and> leaked w' = leaked w))) \<and>
       (fault w = Some 0 \<longrightarrow> fst ?R = Inl AllocationFailure) \<and>
       (\<forall>k<length xs. fault w = Some (Suc k) \<and> \<not> nothrow_move_constructible T \<longrightarrow>
          fst ?R = Inl (ElementFailure (if copy_constructible T then CopyConstruct
                                        else MoveConstruct)))"
    proof cases
      case null
      with h have h0: "vec_holds w this xs 0" by simp
      have xs: "xs = []" using vec_holds_null[OF h0] by simp
      from n null have n0: "0 < n" by simp
      note R = Reserve_null[OF h0 n0 fit]
      show ?thesis
      proof (intro conjI impI allI)
        assume "fault w = None"
        with R show "\<exists>w'. ?R = (Inr (), w')" by simp
      next
        fix w' assume ok: "?R = (Inr (), w')"
        with R have "survive (Suc 0) (fault w)" by (simp split: if_splits)
        with R ok have w': "w' = w\<lparr>vectors := (vectors w)(this :=
                           \<lparr>data_m = \<lparr>buffer_m = Ptr (Some ?nb) 0, capacity_m = n\<rparr>,
                            size_m = 0\<rparr>),
                        blocks := (blocks w)(?nb \<mapsto> replicate n Raw),
                        next_block := Suc ?nb,
                        fault := spend (Suc 0) (fault w)\<rparr>"
          by simp
        show "vec_holds w' this xs n" using n
          by (intro vec_holds_fresh_buffer[where b = ?nb]) (simp_all add: w' xs)
        show "data_m (vectors w' this) = \<lparr>buffer_m = Ptr (Some ?nb) 0, capacity_m = n\<rparr>"
          by (simp add: w')
        show "leaked w' = leaked w" by (simp add: w')
      next
        fix e w' assume bad: "?R = (Inl e, w')"
        with R have w': "w' = w\<lparr>fault := None\<rparr>" and e: "e = AllocationFailure"
          by (simp_all split: if_splits)
        show "vectors w' = vectors w" "blocks w' = blocks w" "leaked w' = leaked w"
          by (simp_all add: w')
        assume "\<not> nothrow_move_constructible T \<and> \<not> copy_constructible T \<and>
           e \<noteq> AllocationFailure"
        with e show "e = ElementFailure MoveConstruct"
          "\<exists>k<length xs. fault w = Some (Suc k) \<and>
              vec_holds w' this (moved_prefix T k xs) cap \<and> vectors w' = vectors w \<and>
              (\<forall>b. Some b \<noteq> base (buffer_m (data_m (vectors w this))) \<longrightarrow>
                 blocks w' b = blocks w b) \<and>
              blocks w' ?nb = None \<and> leaked w' = leaked w"
          by simp_all
      next
        assume "fault w = Some 0"
        with R show "fst ?R = Inl AllocationFailure" by simp
      next
        fix k assume "k < length xs"
        with xs show "fst ?R = Inl (ElementFailure (if copy_constructible T then CopyConstruct
                                        else MoveConstruct))"
          by simp
      qed
    next
      case copy
      from h copy have ba: "blocks w a = Some (cells_of xs cap)" by (elim vec_holds_block) auto
      have ne: "a \<noteq> ?nb" using fr ba by (auto simp: fresh_next_def)
      note R = Reserve_grow_copy[OF h fr n copy(1) copy(3) copy(4) copy(2) fit]
      show ?thesis
      proof (intro conjI impI allI)
        assume "fault w = None"
        with R show "\<exists>w'. ?R = (Inr (), w')" by simp
      next
        fix w' assume ok: "?R = (Inr (), w')"
        with R have "survive (Suc 0) (fault w)" "survive (length xs) (spend (Suc 0) (fault w))"
          by (simp_all split: if_splits)
        with R ok have w': "w' = w\<lparr>vectors := (vectors w)(this :=
                           \<lparr>data_m = \<lparr>buffer_m = Ptr (Some ?nb) 0, capacity_m = n\<rparr>,
                            size_m = length xs\<rparr>),
                        blocks := (blocks w)(?nb \<mapsto> cells_of xs n, a := None),
                        next_block := Suc ?nb,
                        fault := spend (length xs) (spend (Suc 0) (fault w))\<rparr>"
          by simp
        show "vec_holds w' this xs n" using n le ne
          by (intro vec_holds_fresh_buffer[where b = ?nb]) (simp_all add: w')
        show "data_m (vectors w' this) = \<lparr>buffer_m = Ptr (Some ?nb) 0, capacity_m = n\<rparr>"
          by (simp add: w')
        show "leaked w' = leaked w" by (simp add: w')
      next
        fix e w' assume bad: "?R = (Inl e, w')"
        with R have "w' = w\<lparr>fault := None\<rparr> \<or> w' = w\<lparr>next_block := Suc ?nb, fault := None\<rparr>"
          by (simp split: if_splits)
        then show "vectors w' = vectors w" "blocks w' = blocks w" "leaked w' = leaked w"
          by auto
        assume "\<not> nothrow_move_constructible T \<and> \<not> copy_constructible T \<and>
           e \<noteq> AllocationFailure"
        with copy(4) show "e = ElementFailure MoveConstruct"
          "\<exists>k<length xs. fault w = Some (Suc k) \<and>
              vec_holds w' this (moved_prefix T k xs) cap \<and> vectors w' = vectors w \<and>
              (\<forall>b. Some b \<noteq> base (buffer_m (data_m (vectors w this))) \<longrightarrow>
                 blocks w' b = blocks w b) \<and>
              blocks w' ?nb = None \<and> leaked w' = leaked w"
          by simp_all
      next
        assume "fault w = Some 0"
        with R show "fst ?R = Inl AllocationFailure" by simp
      next
        fix k assume "k < length xs" "fault w = Some (Suc k) \<and> \<not> nothrow_move_constructible T"
        with R copy(4) show "fst ?R = Inl (ElementFailure (if copy_constructible T
                                        then CopyConstruct else MoveConstruct))"
          by simp
      qed
    next
      case nothrow
      from h nothrow have ba: "blocks w a = Some (cells_of xs cap)" by (elim vec_holds_block) auto
      have ne: "a \<noteq> ?nb" using fr ba by (auto simp: fresh_next_def)
      from nothrow(3) have pol: "nothrow_move_constructible T \<or> \<not> copy_constructible T" by simp
      note R = Reserve_grow_move[OF h fr n nothrow(1) pol nothrow(2) fit]
      have c0: "move_cost T (length xs) = 0" using nothrow(3) by (simp add: move_cost_def)
      show ?thesis
      proof (intro conjI impI allI)
        assume "fault w = None"
        with R show "\<exists>w'. ?R = (Inr (), w')" by simp
      next
        fix w' assume ok: "?R = (Inr (), w')"
        with R have "survive (Suc 0) (fault w)" by (simp_all split: if_splits)
        with R ok have w': "w' = w\<lparr>vectors := (vectors w)(this :=
                           \<lparr>data_m = \<lparr>buffer_m = Ptr (Some ?nb) 0, capacity_m = n\<rparr>,
                            size_m = length xs\<rparr>),
                        blocks := (blocks w)(?nb \<mapsto> cells_of xs n, a := None),
                        next_block := Suc ?nb,
                        fault := spend (Suc 0) (fault w)\<rparr>"
          by (simp add: c0)
        show "vec_holds w' this xs n" using n le ne
          by (intro vec_holds_fresh_buffer[where b = ?nb]) (simp_all add: w')
        show "data_m (vectors w' this) = \<lparr>buffer_m = Ptr (Some ?nb) 0, capacity_m = n\<rparr>"
          by (simp add: w')
        show "leaked w' = leaked w" by (simp add: w')
      next
        fix e w' assume bad: "?R = (Inl e, w')"
        from R bad c0 have w': "w' = w\<lparr>fault := None\<rparr>"
          by (simp split: if_splits)
        show "vectors w' = vectors w" "blocks w' = blocks w" "leaked w' = leaked w"
          by (simp_all add: w')
        assume "\<not> nothrow_move_constructible T \<and> \<not> copy_constructible T \<and>
           e \<noteq> AllocationFailure"
        with nothrow(3) show "e = ElementFailure MoveConstruct"
          "\<exists>k<length xs. fault w = Some (Suc k) \<and>
              vec_holds w' this (moved_prefix T k xs) cap \<and> vectors w' = vectors w \<and>
              (\<forall>b. Some b \<noteq> base (buffer_m (data_m (vectors w this))) \<longrightarrow>
                 blocks w' b = blocks w b) \<and>
              blocks w' ?nb = None \<and> leaked w' = leaked w"
          by simp_all
      next
        assume "fault w = Some 0"
        with R show "fst ?R = Inl AllocationFailure" by simp
      next
        fix k assume "k < length xs" "fault w = Some (Suc k) \<and> \<not> nothrow_move_constructible T"
        with nothrow(3) show "fst ?R = Inl (ElementFailure (if copy_constructible T
                                        then CopyConstruct else MoveConstruct))"
          by simp
      qed
    next
      case move
      from h move obtain v: "data_m (vectors w this) = \<lparr>buffer_m = Ptr (Some a) 0, capacity_m = cap\<rparr>"
        and ba: "blocks w a = Some (cells_of xs cap)" and sz: "size_m (vectors w this) = length xs"
        and lc: "length xs \<le> cap"
        by (elim vec_holds_block) auto
      have ne: "a \<noteq> ?nb" using fr ba by (auto simp: fresh_next_def)
      from move(4) have pol: "nothrow_move_constructible T \<or> \<not> copy_constructible T" by simp
      note R = Reserve_grow_move[OF h fr n move(1) pol move(2) fit]
      note F = Reserve_move_throw[OF h fr n move(1) move(2) fit move(3) move(4)]
      have cn: "move_cost T (length xs) = length xs" using move(3) by (simp add: move_cost_def)
      have vt: "vectors w this = \<lparr>data_m = \<lparr>buffer_m = Ptr (Some a) 0, capacity_m = cap\<rparr>,
                                  size_m = length xs\<rparr>"
        using v sz by (cases "vectors w this") simp
      show ?thesis
      proof (intro conjI impI allI)
        assume "fault w = None"
        with R show "\<exists>w'. ?R = (Inr (), w')" by simp
      next
        fix w' assume ok: "?R = (Inr (), w')"
        with R have "survive (Suc 0) (fault w)" "survive (length xs) (spend (Suc 0) (fault w))"
          by (simp_all add: cn split: if_splits)
        with R ok have w': "w' = w\<lparr>vectors := (vectors w)(this :=
                           \<lparr>data_m = \<lparr>buffer_m = Ptr (Some ?nb) 0, capacity_m = n\<rparr>,
                            size_m = length xs\<rparr>),
                        blocks := (blocks w)(?nb \<mapsto> cells_of xs n, a := None),
                        next_block := Suc ?nb,
                        fault := spend (length xs) (spend (Suc 0) (fault w))\<rparr>"
          by (simp add: cn)
        show "vec_holds w' this xs n" using n le ne
          by (intro vec_holds_fresh_buffer[where b = ?nb]) (simp_all add: w')
        show "data_m (vectors w' this) = \<lparr>buffer_m = Ptr (Some ?nb) 0, capacity_m = n\<rparr>"
          by (simp add: w')
        show "leaked w' = leaked w" by (simp add: w')
      next
        fix e w' assume bad: "?R = (Inl e, w')"
          and P: "nothrow_move_constructible T \<or> copy_constructible T \<or> e = AllocationFailure"
        from P move have e: "e = AllocationFailure" by simp
        have "fault w = Some 0"
        proof (cases "fault w")
          case None
          with R bad show ?thesis by simp
        next
          case (Some j)
          show ?thesis
          proof (cases j)
            case 0
            with Some show ?thesis by simp
          next
            case (Suc k)
            show ?thesis
            proof (cases "k < length xs")
              case True
              from F[OF _ True] Some Suc bad e show ?thesis by simp
            next
              case False
              with R bad Some Suc show ?thesis by (simp add: cn)
            qed
          qed
        qed
        with R bad have w': "w' = w\<lparr>fault := None\<rparr>" by simp
        show "vectors w' = vectors w" "blocks w' = blocks w" "leaked w' = leaked w"
          by (simp_all add: w')
      next
        fix e w' assume bad: "?R = (Inl e, w')"
          and Q: "\<not> nothrow_move_constructible T \<and> \<not> copy_constructible T \<and>
           e \<noteq> AllocationFailure"
        have "\<exists>k<length xs. fault w = Some (Suc k)"
        proof (cases "fault w")
          case None
          with R bad show ?thesis by simp
        next
          case (Some j)
          show ?thesis
          proof (cases j)
            case 0
            with Some R bad Q show ?thesis by simp
          next
            case (Suc k)
            show ?thesis
            proof (cases "k < length xs")
              case True
              with Some Suc show ?thesis by simp
            next
              case False
              with R bad Some Suc show ?thesis by (simp add: cn)
            qed
          qed
        qed
        then obtain k where k: "k < length xs" and fk: "fault w = Some (Suc k)" by blast
        from F[OF fk k] bad have e: "e = ElementFailure MoveConstruct"
          and w': "w' = w\<lparr>blocks := (blocks w)(a \<mapsto> cells_of (moved_prefix T k xs) cap),
                          next_block := Suc ?nb, fault := None\<rparr>"
          by simp_all
        have lm: "length (moved_prefix T k xs) = length xs" using k by (simp add: moved_prefix_def)
        have hv: "vec_holds w' this (moved_prefix T k xs) cap"
          using move(1) lc
          by (intro vec_holds_fresh_buffer[where b = a]) (simp_all add: w' vt lm)
        have nb: "blocks w' ?nb = None" using fr ne by (simp add: w' fresh_next_def)
        show "e = ElementFailure MoveConstruct" by (rule e)
        show "\<exists>k<length xs. fault w = Some (Suc k) \<and>
              vec_holds w' this (moved_prefix T k xs) cap \<and> vectors w' = vectors w \<and>
              (\<forall>b. Some b \<noteq> base (buffer_m (data_m (vectors w this))) \<longrightarrow>
                 blocks w' b = blocks w b) \<and>
              blocks w' ?nb = None \<and> leaked w' = leaked w"
          using k fk hv nb by (intro exI[of _ k]) (simp add: w' move(2))
      next
        assume "fault w = Some 0"
        with R show "fst ?R = Inl AllocationFailure" by simp
      next
        fix k assume "k < length xs" "fault w = Some (Suc k) \<and> \<not> nothrow_move_constructible T"
        with F[of k] move(4) show "fst ?R = Inl (ElementFailure (if copy_constructible T
                                        then CopyConstruct else MoveConstruct))"
          by simp
      qed
    qed
    note A = main[THEN conjunct1]
    note B = main[THEN conjunct2, THEN conjunct1, rule_format]
    note C = main[THEN conjunct2, THEN conjunct2, THEN conjunct1, rule_format]
    note D = main[THEN conjunct2, THEN conjunct2, THEN conjunct2, THEN conjunct1]
    note E = main[THEN conjunct2, THEN conjunct2, THEN conjunct2, THEN conjunct2]
    have B': "\<forall>w'. ?R = (Inr (), w') \<longrightarrow>
        vec_holds w' this xs n \<and> Capacity (vectors w' this) = n \<and>
        GetAddress (data_m (vectors w' this)) = Ptr (Some ?nb) 0 \<and>
        max n cap \<le> Capacity (vectors w' this) \<and> leaked w' = leaked w"
    proof (intro allI impI)
      fix w' assume "?R = (Inr (), w')"
      from B[OF this] n
      show "vec_holds w' this xs n \<and> Capacity (vectors w' this) = n \<and>
        GetAddress (data_m (vectors w' this)) = Ptr (Some ?nb) 0 \<and>
        max n cap \<le> Capacity (vectors w' this) \<and> leaked w' = leaked w"
        by (simp add: Capacity_def RawMemory_Capacity_def GetAddress_def)
    qed
    have C': "\<forall>e w'. ?R = (Inl e, w') \<longrightarrow>
        (nothrow_move_constructible T \<or> copy_constructible T \<or> e = AllocationFailure \<longrightarrow>
           vec_holds w' this xs cap \<and> vectors w' = vectors w \<and> blocks w' = blocks w \<and>
           leaked w' = leaked w) \<and>
        (\<not> nothrow_move_constructible T \<and> \<not> copy_constructible T \<and>
         e \<noteq> AllocationFailure \<longrightarrow>
           e = ElementFailure MoveConstruct \<and>
           (\<exists>k<length xs. fault w = Some (Suc k) \<and>
              vec_holds w' this (moved_prefix T k xs) cap \<and> vectors w' = vectors w \<and>
              (\<forall>b. Some b \<noteq> base (buffer_m (data_m (vectors w this))) \<longrightarrow>
                 blocks w' b = blocks w b) \<and>
              blocks w' ?nb = None \<and> leaked w' = leaked w))"
    proof (intro allI impI conjI)
      fix e w' assume bad: "?R = (Inl e, w')"
        and P: "nothrow_move_constructible T \<or> copy_constructible T \<or> e = AllocationFailure"
      from C[OF bad, THEN conjunct1, rule_format, OF P]
      show "vectors w' = vectors w" "blocks w' = blocks w" "leaked w' = leaked w"
        by simp_all
      then show "vec_holds w' this xs cap"
        using h vec_holds_cong[of w' w this xs cap] by simp
    next
      fix e w' assume bad: "?R = (Inl e, w')"
        and Q: "\<not> nothrow_move_constructible T \<and> \<not> copy_constructible T \<and>
         e \<noteq> AllocationFailure"
      from C[OF bad, THEN conjunct2, rule_format, OF Q]
      show "e = ElementFailure MoveConstruct"
        "\<exists>k<length xs. fault w = Some (Suc k) \<and>
              vec_holds w' this (moved_prefix T k xs) cap \<and> vectors w' = vectors w \<and>
              (\<forall>b. Some b \<noteq> base (buffer_m (data_m (vectors w this))) \<longrightarrow>
                 blocks w' b = blocks w b) \<and>
              blocks w' ?nb = None \<and> leaked w' = leaked w"
        by simp_all
    qed
    from A B' C' D E show ?thesis by (intro conjI)
  qed
  show ?thesis
    apply (rule conjI)
     apply (rule impI, erule small)
    apply (rule impI, erule conjE, rule big; assumption)
    done
qed

theorem Reserve_spec_witness:
  "vec_holds (push_all trivial_T 0 [1, 2, 3] world0) 0 [1, 2, 3] 4 \<and>
   fresh_next (push_all trivial_T 0 [1, 2, 3] world0) \<and>
   Reserve trivial_T 0 2 (push_all trivial_T 0 [1, 2, 3] world0) =
     (Inr (), push_all trivial_T 0 [1, 2, 3] world0) \<and>
   fits trivial_T 8 \<and>
   (\<exists>w'. Reserve trivial_T 0 8 (push_all trivial_T 0 [1, 2, 3] world0) = (Inr (), w') \<and>
      vec_holds w' 0 [1, 2, 3] 8 \<and> Capacity (vectors w' 0) = 8) \<and>
   (\<exists>w'. Reserve copying_T 0 4 ((push_all copying_T 0 [''a'', ''b''] world0)\<lparr>fault := Some 2\<rparr>) =
           (Inl (ElementFailure CopyConstruct), w') \<and>
      vec_holds w' 0 [''a'', ''b''] 2 \<and>
      blocks w' = blocks (push_all copying_T 0 [''a'', ''b''] world0)) \<and>
   (\<exists>w'. Reserve move_only_T 0 4 ((push_all move_only_T 0 [''a'', ''b''] world0)\<lparr>fault := Some 0\<rparr>) =
           (Inl AllocationFailure, w') \<and>
      vec_holds w' 0 [''a'', ''b''] 2) \<and>
   (\<exists>w'. Reserve move_only_T 0 4 ((push_all move_only_T 0 [''a'', ''b''] world0)\<lparr>fault := Some 1\<rparr>) =
           (Inl (ElementFailure MoveConstruct), w') \<and>
      vec_holds w' 0 [''a'', ''b''] 2) \<and>
   (\<exists>w'. Reserve move_only_T 0 4 ((push_all move_only_T 0 [''a'', ''b''] world0)\<lparr>fault := Some 2\<rparr>) =
           (Inl (ElementFailure MoveConstruct), w') \<and>
      vec_holds w' 0 ['''', ''b''] 2)"
proof -
  let ?W = "push_all trivial_T 0 [1, 2, 3] world0"
  let ?V = "(push_all copying_T 0 [''a'', ''b''] world0)\<lparr>fault := Some 2\<rparr>"
  let ?M = "push_all move_only_T 0 [''a'', ''b''] world0"
  have h: "vec_holds ?W 0 [1, 2, 3] 4" and f: "fresh_next ?W" and n: "fault ?W = None"
    by (simp_all add: model_defs example_defs)
  have h': "vec_holds ?V 0 [''a'', ''b''] 2" and f': "fresh_next ?V"
    by (simp_all add: model_defs example_defs)
  have hm: "vec_holds (?M\<lparr>fault := j\<rparr>) 0 [''a'', ''b''] 2" and fm: "fresh_next (?M\<lparr>fault := j\<rparr>)" for j
    by (simp_all add: model_defs example_defs)
  have fit8: "fits trivial_T 8" by (simp add: fits_def trivial_T_def size_limit_def)
  have fitc: "fits copying_T 4" by (simp add: fits_def copying_T_def size_limit_def)
  have fitm: "fits move_only_T 4" by (simp add: fits_def move_only_T_def size_limit_def)
  have pol: "copy_constructible copying_T" by (simp add: copying_T_def)
  have mo: "\<not> nothrow_move_constructible move_only_T" "\<not> copy_constructible move_only_T"
    by (simp_all add: move_only_T_def)
  from Reserve_spec [OF h f, of 2 trivial_T]
  have 1: "Reserve trivial_T 0 2 ?W = (Inr (), ?W)" by simp
  note G = Reserve_spec [OF h f, of 8 trivial_T, THEN conjunct2, rule_format]
  from G fit8 n
  have 2: "\<exists>w'. Reserve trivial_T 0 8 ?W = (Inr (), w') \<and> vec_holds w' 0 [1, 2, 3] 8 \<and>
             Capacity (vectors w' 0) = 8"
    by auto
  note C = Reserve_spec [OF h' f', of 4 copying_T, THEN conjunct2, rule_format]
  have "fst (Reserve copying_T 0 4 ?V) = Inl (ElementFailure CopyConstruct)"
    using C fitc by (simp add: copying_T_def)
  then obtain v' where v': "Reserve copying_T 0 4 ?V = (Inl (ElementFailure CopyConstruct), v')"
    by (metis prod.collapse)
  from C v' fitc pol
  have 3: "vec_holds v' 0 [''a'', ''b''] 2 \<and> blocks v' = blocks ?V"
    by simp
  from 3 v' have 4: "\<exists>w'. Reserve copying_T 0 4 ?V = (Inl (ElementFailure CopyConstruct), w') \<and>
      vec_holds w' 0 [''a'', ''b''] 2 \<and>
      blocks w' = blocks (push_all copying_T 0 [''a'', ''b''] world0)"
    by simp
  note M0 = Reserve_spec [OF hm fm, of 4 move_only_T "Some 0", THEN conjunct2, rule_format]
  have "fst (Reserve move_only_T 0 4 (?M\<lparr>fault := Some 0\<rparr>)) = Inl AllocationFailure"
    using M0 fitm by simp
  then obtain m0 where m0: "Reserve move_only_T 0 4 (?M\<lparr>fault := Some 0\<rparr>) = (Inl AllocationFailure, m0)"
    by (metis prod.collapse)
  from M0 m0 fitm have 5: "vec_holds m0 0 [''a'', ''b''] 2" by simp
  note M1 = Reserve_spec [OF hm fm, of 4 move_only_T "Some 1", THEN conjunct2, rule_format]
  have "fst (Reserve move_only_T 0 4 (?M\<lparr>fault := Some 1\<rparr>)) = Inl (ElementFailure MoveConstruct)"
    using M1 fitm mo by simp
  then obtain m1 where m1: "Reserve move_only_T 0 4 (?M\<lparr>fault := Some 1\<rparr>) =
      (Inl (ElementFailure MoveConstruct), m1)"
    by (metis prod.collapse)
  from M1 m1 fitm mo have 6: "vec_holds m1 0 [''a'', ''b''] 2"
    by (auto simp: moved_prefix_def)
  note M2 = Reserve_spec [OF hm fm, of 4 move_only_T "Some 2", THEN conjunct2, rule_format]
  have "fst (Reserve move_only_T 0 4 (?M\<lparr>fault := Some 2\<rparr>)) = Inl (ElementFailure MoveConstruct)"
    using M2 fitm mo by (simp add: eval_nat_numeral)
  then obtain m2 where m2: "Reserve move_only_T 0 4 (?M\<lparr>fault := Some 2\<rparr>) =
      (Inl (ElementFailure MoveConstruct), m2)"
    by (metis prod.collapse)
  from M2 m2 fitm mo have 7: "vec_holds m2 0 ['''', ''b''] 2"
    by (auto simp: moved_prefix_def move_only_T_def eval_nat_numeral)
  show ?thesis using h f 1 fit8 2 4 m0 5 m1 6 m2 7 by blast
qed

text \<open>
  C7 as stated fails in two ways. For a type that cannot be copied and whose move
  constructor may throw: the sequence holds the strings \<open>a\<close>, \<open>b\<close> in capacity 2,
  \<open>Reserve 4\<close> relocates by moving and the second move throws; the first element has been
  moved from, and after the throw the sequence holds the empty string and \<open>b\<close>. For a
  request whose byte count wraps: the sequence holds 1, 2, 3 as four-byte integers in
  capacity 4, and \<open>Reserve (2 ^ 62)\<close> asks \<open>operator new\<close> for \<open>2 ^ 64 mod 2 ^ 64 = 0\<close> bytes;
  nothing throws, and the first element is relocated past the end of the fresh allocation.
\<close>

theorem Reserve_counterexample:
  "vec_holds ((push_all move_only_T 0 [''a'', ''b''] world0)\<lparr>fault := Some 2\<rparr>) 0 [''a'', ''b''] 2 \<and>
   fresh_next ((push_all move_only_T 0 [''a'', ''b''] world0)\<lparr>fault := Some 2\<rparr>) \<and>
   fst (Reserve move_only_T 0 4 ((push_all move_only_T 0 [''a'', ''b''] world0)\<lparr>fault := Some 2\<rparr>)) =
     Inl (ElementFailure MoveConstruct) \<and>
   \<not> vec_holds
     (snd (Reserve move_only_T 0 4 ((push_all move_only_T 0 [''a'', ''b''] world0)\<lparr>fault := Some 2\<rparr>)))
     0 [''a'', ''b''] 2 \<and>
   vec_holds
     (snd (Reserve move_only_T 0 4 ((push_all move_only_T 0 [''a'', ''b''] world0)\<lparr>fault := Some 2\<rparr>)))
     0 ['''', ''b''] 2 \<and>
   vec_holds (push_all trivial_T 0 [1, 2, 3] world0) 0 [1, 2, 3] 4 \<and>
   fresh_next (push_all trivial_T 0 [1, 2, 3] world0) \<and>
   fault (push_all trivial_T 0 [1, 2, 3] world0) = None \<and>
   fst (Reserve trivial_T 0 (2 ^ 62) (push_all trivial_T 0 [1, 2, 3] world0)) =
     Inl (InvalidAccess (Ptr (Some 3) 0))"
proof -
  let ?W = "push_all trivial_T 0 [1, 2, 3] world0"
  have h: "vec_holds ?W 0 [1, 2, 3] 4" and f: "fresh_next ?W" and n: "fault ?W = None"
    and nb: "next_block ?W = 3"
    by (simp_all add: model_defs example_defs)
  have z: "((2 ^ 62) * sizeof_T trivial_T) mod size_limit div sizeof_T trivial_T = 0"
    by (simp add: trivial_T_def size_limit_def)
  have nt: "nothrow_move_constructible trivial_T" by (simp add: trivial_T_def)
  have "fst (Reserve trivial_T 0 (2 ^ 62) ?W) = Inl (InvalidAccess (Ptr (Some (next_block ?W)) 0))"
    by (rule Reserve_wraps[OF h f _ z nt n]) simp
  then have w: "fst (Reserve trivial_T 0 (2 ^ 62) ?W) = Inl (InvalidAccess (Ptr (Some 3) 0))"
    by (simp only: nb)
  have m: "vec_holds ((push_all move_only_T 0 [''a'', ''b''] world0)\<lparr>fault := Some 2\<rparr>) 0 [''a'', ''b''] 2 \<and>
   fresh_next ((push_all move_only_T 0 [''a'', ''b''] world0)\<lparr>fault := Some 2\<rparr>) \<and>
   fst (Reserve move_only_T 0 4 ((push_all move_only_T 0 [''a'', ''b''] world0)\<lparr>fault := Some 2\<rparr>)) =
     Inl (ElementFailure MoveConstruct) \<and>
   \<not> vec_holds
     (snd (Reserve move_only_T 0 4 ((push_all move_only_T 0 [''a'', ''b''] world0)\<lparr>fault := Some 2\<rparr>)))
     0 [''a'', ''b''] 2 \<and>
   vec_holds
     (snd (Reserve move_only_T 0 4 ((push_all move_only_T 0 [''a'', ''b''] world0)\<lparr>fault := Some 2\<rparr>)))
     0 ['''', ''b''] 2"
    by (simp add: model_defs example_defs)
  from m h f n w show ?thesis by blast
qed

section \<open>Assignment\<close>

text \<open>
  C8. Copy assignment \<open>*this = other\<close> between two distinct sequences, \<open>*this\<close> holding \<open>xs\<close>
  in capacity \<open>cap\<close> and \<open>other\<close> holding \<open>ys\<close>. It returns when nothing throws, and whenever
  it returns \<open>*this\<close> holds \<open>ys\<close>, element by element equal to \<open>other\<close>, which is unchanged,
  and no object is leaked. When \<open>ys\<close> fits the capacity the assignment is in place: the
  buffer and the capacity stay, \<open>length ys\<close> operations of \<open>T\<close> are spent, the first
  \<open>min (length xs) (length ys)\<close> of them copy assignments and the others copy constructions,
  and the cells from \<open>length ys\<close> on are raw. When \<open>ys\<close> is larger than the capacity, the
  target is rebuilt in a fresh buffer of capacity \<open>length ys\<close>, whose byte count \<open>size_t\<close>
  represents as it does that of the buffer of \<open>other\<close>, and a call that throws leaves the
  sequences, the free store and the leak count as they were. Copy and move assignment of a
  sequence to itself change nothing.
\<close>

theorem Vector_copy_assign_spec:
  "(vec_holds w this xs cap \<and> vec_holds w other ys cap' \<and> this \<noteq> other \<and>
    separate_buffers w this other \<and> fresh_next w \<and>
    (cap < length ys \<longrightarrow> fits T (length ys)) \<longrightarrow>
      (fault w = None \<longrightarrow> (\<exists>w'. Vector_copy_assign T this other w = (Inr (), w'))) \<and>
      (\<forall>w'. Vector_copy_assign T this other w = (Inr (), w') \<longrightarrow>
         vec_holds w' this ys (if cap < length ys then length ys else cap) \<and>
         vec_holds w' other ys cap' \<and>
         Size (vectors w' this) = length ys \<and>
         (\<forall>i<length ys. Index this i w' = (Inr (ys ! i), w') \<and>
                          Index other i w' = (Inr (ys ! i), w')) \<and>
         (length ys \<le> cap \<longrightarrow>
            data_m (vectors w' this) = data_m (vectors w this) \<and>
            fault w' = spend (length ys) (fault w)) \<and>
         leaked w' = leaked w) \<and>
      (length ys \<le> cap \<longrightarrow>
         (\<forall>j. fault w = Some j \<and> j < length ys \<longrightarrow>
            fst (Vector_copy_assign T this other w) =
              Inl (ElementFailure (if j < min (length xs) (length ys)
                                   then CopyAssign else CopyConstruct)))) \<and>
      (cap < length ys \<longrightarrow>
         (\<forall>e w'. Vector_copy_assign T this other w = (Inl e, w') \<longrightarrow>
            vectors w' = vectors w \<and> blocks w' = blocks w \<and> leaked w' = leaked w))) \<and>
   Vector_copy_assign T this this w = (Inr (), w) \<and>
   Vector_move_assign this this w = (Inr (), w)"
proof (intro conjI)
  show "Vector_copy_assign T this this w = (Inr (), w)"
    by (simp add: Vector_copy_assign_def bind_def get_vec_def Let_def ret_def)
  show "Vector_move_assign this this w = (Inr (), w)"
    by (simp add: Vector_move_assign_def ret_def)
  show "vec_holds w this xs cap \<and> vec_holds w other ys cap' \<and> this \<noteq> other \<and>
    separate_buffers w this other \<and> fresh_next w \<and>
    (cap < length ys \<longrightarrow> fits T (length ys)) \<longrightarrow>
      (fault w = None \<longrightarrow> (\<exists>w'. Vector_copy_assign T this other w = (Inr (), w'))) \<and>
      (\<forall>w'. Vector_copy_assign T this other w = (Inr (), w') \<longrightarrow>
         vec_holds w' this ys (if cap < length ys then length ys else cap) \<and>
         vec_holds w' other ys cap' \<and>
         Size (vectors w' this) = length ys \<and>
         (\<forall>i<length ys. Index this i w' = (Inr (ys ! i), w') \<and>
                          Index other i w' = (Inr (ys ! i), w')) \<and>
         (length ys \<le> cap \<longrightarrow>
            data_m (vectors w' this) = data_m (vectors w this) \<and>
            fault w' = spend (length ys) (fault w)) \<and>
         leaked w' = leaked w) \<and>
      (length ys \<le> cap \<longrightarrow>
         (\<forall>j. fault w = Some j \<and> j < length ys \<longrightarrow>
            fst (Vector_copy_assign T this other w) =
              Inl (ElementFailure (if j < min (length xs) (length ys)
                                   then CopyAssign else CopyConstruct)))) \<and>
      (cap < length ys \<longrightarrow>
         (\<forall>e w'. Vector_copy_assign T this other w = (Inl e, w') \<longrightarrow>
            vectors w' = vectors w \<and> blocks w' = blocks w \<and> leaked w' = leaked w))"
  proof (intro impI)
    assume a: "vec_holds w this xs cap \<and> vec_holds w other ys cap' \<and> this \<noteq> other \<and>
      separate_buffers w this other \<and> fresh_next w \<and>
      (cap < length ys \<longrightarrow> fits T (length ys))"
    then have hv: "vec_holds w this xs cap" and ho: "vec_holds w other ys cap'"
      and ne: "this \<noteq> other" and sep: "separate_buffers w this other" and fr: "fresh_next w"
      and fit: "cap < length ys \<longrightarrow> fits T (length ys)"
      by simp_all
    let ?k = "length ys" and ?m = "length xs"
    let ?R = "Vector_copy_assign T this other w"
    have core:
      "(fault w = None \<longrightarrow> (\<exists>w'. ?R = (Inr (), w'))) \<and>
       (\<forall>w'. ?R = (Inr (), w') \<longrightarrow>
          vec_holds w' this ys (if cap < ?k then ?k else cap) \<and> vec_holds w' other ys cap' \<and>
          (?k \<le> cap \<longrightarrow> data_m (vectors w' this) = data_m (vectors w this) \<and>
                          fault w' = spend ?k (fault w)) \<and>
          leaked w' = leaked w) \<and>
       (?k \<le> cap \<longrightarrow>
          (\<forall>j. fault w = Some j \<and> j < ?k \<longrightarrow>
             fst ?R = Inl (ElementFailure (if j < min ?m ?k then CopyAssign else CopyConstruct)))) \<and>
       (cap < ?k \<longrightarrow>
          (\<forall>e w'. ?R = (Inl e, w') \<longrightarrow>
             vectors w' = vectors w \<and> blocks w' = blocks w \<and> leaked w' = leaked w))"
    proof -
      consider (swap) "cap < ?k" | (empty) "?k \<le> cap" "cap = 0" | (place) "?k \<le> cap" "cap \<noteq> 0"
        by linarith
      then show ?thesis
      proof cases
        case swap
        from Vector_copy_assign_swap[OF hv ho ne sep fr swap fit[THEN mp, OF swap]] obtain B where
          R: "?R =
            (if \<not> survive (Suc 0) (fault w) then (Inl AllocationFailure, w\<lparr>fault := None\<rparr>)
             else if \<not> survive ?k (spend (Suc 0) (fault w))
             then (Inl (ElementFailure CopyConstruct),
                   w\<lparr>next_block := Suc (next_block w), fault := None\<rparr>)
             else (Inr (),
                   w\<lparr>vectors := (vectors w)(this :=
                        \<lparr>data_m = \<lparr>buffer_m = Ptr (Some (next_block w)) 0, capacity_m = ?k\<rparr>,
                         size_m = ?k\<rparr>),
                     blocks := B,
                     next_block := Suc (next_block w),
                     fault := spend ?k (spend (Suc 0) (fault w))\<rparr>))"
          and Bn: "B (next_block w) = Some (cells_of ys ?k)"
          and Bo: "\<forall>b. b \<noteq> next_block w \<and> base (buffer_m (data_m (vectors w this))) \<noteq> Some b \<longrightarrow>
                     B b = blocks w b"
          by blast
        show ?thesis
        proof (intro conjI impI allI)
          assume "fault w = None"
          with R show "\<exists>w'. ?R = (Inr (), w')" by simp
        next
          fix w' assume ok: "?R = (Inr (), w')"
          with R have s: "survive (Suc 0) (fault w)" "survive ?k (spend (Suc 0) (fault w))"
            by (simp_all split: if_splits)
          with R ok have w': "w' = w\<lparr>vectors := (vectors w)(this :=
                        \<lparr>data_m = \<lparr>buffer_m = Ptr (Some (next_block w)) 0, capacity_m = ?k\<rparr>,
                         size_m = ?k\<rparr>),
                     blocks := B,
                     next_block := Suc (next_block w),
                     fault := spend ?k (spend (Suc 0) (fault w))\<rparr>"
            by simp
          show "vec_holds w' this ys (if cap < ?k then ?k else cap)"
            using swap Bn
            by (simp add: w') (rule vec_holds_fresh_buffer[where b = "next_block w"], auto)
          show "vec_holds w' other ys cap'"
          proof (rule vec_holds_same_block[OF ho])
            show "vectors w' other = vectors w other" using ne by (simp add: w')
            fix b assume b: "base (buffer_m (data_m (vectors w other))) = Some b"
            with ho have "blocks w b \<noteq> None"
              by (auto simp: vec_holds_def split: ptr.splits option.splits)
            with fr have "b \<noteq> next_block w" by (auto simp: fresh_next_def)
            moreover from sep b have "base (buffer_m (data_m (vectors w this))) \<noteq> Some b"
              by (auto simp: separate_buffers_def)
            ultimately show "blocks w' b = blocks w b" using Bo by (simp add: w')
          qed
          show "leaked w' = leaked w" by (simp add: w')
          show "data_m (vectors w' this) = data_m (vectors w this)" if "?k \<le> cap"
            using that swap by simp
          show "fault w' = spend ?k (fault w)" if "?k \<le> cap"
            using that swap by simp
        next
          fix j assume "?k \<le> cap" "fault w = Some j \<and> j < ?k"
          with swap show "fst ?R =
              Inl (ElementFailure (if j < min ?m ?k then CopyAssign else CopyConstruct))"
            by simp
        next
          fix e w' assume "?R = (Inl e, w')"
          with R have "w' = w\<lparr>fault := None\<rparr> \<or>
              w' = w\<lparr>next_block := Suc (next_block w), fault := None\<rparr>"
            by (simp split: if_splits)
          then show "vectors w' = vectors w" "blocks w' = blocks w" "leaked w' = leaked w"
            by auto
        qed
      next
        case empty
        then have k0: "?k = 0" by simp
        from empty hv have h0: "vec_holds w this xs 0" by simp
        have R: "?R = (Inr (), w)"
          by (rule Vector_copy_assign_empty[OF h0 ho ne k0])
        have xs: "xs = []" and ys: "ys = []" using vec_holds_null[OF h0] k0 by simp_all
        show ?thesis
          using hv ho empty by (simp add: R xs ys)
      next
        case place
        with hv obtain a where buf: "buffer_m (data_m (vectors w this)) = Ptr (Some a) 0"
          by (elim vec_holds_block) auto
        note R = Vector_copy_assign_in_place[OF hv ho ne sep place buf, where T = T]
        have cp: "capacity_m (data_m (vectors w this)) = cap"
          using hv by (simp add: vec_holds_def)
        show ?thesis
        proof (intro conjI impI allI)
          assume "fault w = None"
          with R show "\<exists>w'. ?R = (Inr (), w')" by simp
        next
          fix w' assume ok: "?R = (Inr (), w')"
          with R have s: "survive ?k (fault w)" by (auto split: if_splits)
          with R ok have w': "w' = w\<lparr>vectors := (vectors w)(this := (vectors w this)\<lparr>size_m := ?k\<rparr>),
                       blocks := (blocks w)(a \<mapsto> cells_of ys cap),
                       fault := spend ?k (fault w)\<rparr>"
            by simp
          show "vec_holds w' this ys (if cap < ?k then ?k else cap)"
            using place buf cp by (simp add: w' vec_holds_def)
          show "vec_holds w' other ys cap'"
          proof (rule vec_holds_same_block[OF ho])
            show "vectors w' other = vectors w other" using ne by (simp add: w')
            fix b assume b: "base (buffer_m (data_m (vectors w other))) = Some b"
            with sep buf have "b \<noteq> a" by (auto simp: separate_buffers_def)
            then show "blocks w' b = blocks w b" by (simp add: w')
          qed
          show "leaked w' = leaked w" by (simp add: w')
          show "data_m (vectors w' this) = data_m (vectors w this)" by (simp add: w')
          show "fault w' = spend ?k (fault w)" by (simp add: w')
        next
          fix j assume "fault w = Some j \<and> j < ?k"
          with R show "fst ?R =
              Inl (ElementFailure (if j < min ?m ?k then CopyAssign else CopyConstruct))"
            by (auto simp: not_le)
        next
          fix e w' assume "cap < ?k" and "?R = (Inl e, w')"
          with place show "vectors w' = vectors w" "blocks w' = blocks w" "leaked w' = leaked w"
            by simp_all
        qed
      qed
    qed
    note A = core[THEN conjunct1]
    note B = core[THEN conjunct2, THEN conjunct1, rule_format]
    note C = core[THEN conjunct2, THEN conjunct2, THEN conjunct1]
    note D = core[THEN conjunct2, THEN conjunct2, THEN conjunct2]
    have E: "vec_holds w' this ys (if cap < ?k then ?k else cap) \<and>
         vec_holds w' other ys cap' \<and>
         Size (vectors w' this) = ?k \<and>
         (\<forall>i<?k. Index this i w' = (Inr (ys ! i), w') \<and> Index other i w' = (Inr (ys ! i), w')) \<and>
         (?k \<le> cap \<longrightarrow>
            data_m (vectors w' this) = data_m (vectors w this) \<and>
            fault w' = spend ?k (fault w)) \<and>
         leaked w' = leaked w" if ok: "?R = (Inr (), w')" for w'
    proof -
      note F = B[OF ok]
      from F have 1: "vec_holds w' this ys (if cap < ?k then ?k else cap)"
        and 2: "vec_holds w' other ys cap'" by blast+
      from 1 have 3: "Size (vectors w' this) = ?k" by (simp add: vec_holds_def Size_def)
      have 4: "Index this i w' = (Inr (ys ! i), w') \<and> Index other i w' = (Inr (ys ! i), w')"
        if "i < ?k" for i
        using Index_vec_holds[OF 1 that] Index_vec_holds[OF 2 that] by simp
      from F 1 2 3 4 show ?thesis by blast
    qed
    from A E C D show "(fault w = None \<longrightarrow> (\<exists>w'. ?R = (Inr (), w'))) \<and>
      (\<forall>w'. ?R = (Inr (), w') \<longrightarrow>
         vec_holds w' this ys (if cap < ?k then ?k else cap) \<and>
         vec_holds w' other ys cap' \<and>
         Size (vectors w' this) = ?k \<and>
         (\<forall>i<?k. Index this i w' = (Inr (ys ! i), w') \<and>
                          Index other i w' = (Inr (ys ! i), w')) \<and>
         (?k \<le> cap \<longrightarrow>
            data_m (vectors w' this) = data_m (vectors w this) \<and>
            fault w' = spend ?k (fault w)) \<and>
         leaked w' = leaked w) \<and>
      (?k \<le> cap \<longrightarrow>
         (\<forall>j. fault w = Some j \<and> j < ?k \<longrightarrow>
            fst ?R =
              Inl (ElementFailure (if j < min ?m ?k
                                   then CopyAssign else CopyConstruct)))) \<and>
      (cap < ?k \<longrightarrow>
         (\<forall>e w'. ?R = (Inl e, w') \<longrightarrow>
            vectors w' = vectors w \<and> blocks w' = blocks w \<and> leaked w' = leaked w))"
      by blast
  qed
qed

theorem Vector_copy_assign_spec_witness:
  "vec_holds (push_all trivial_T 1 [7, 8, 9] (push_all trivial_T 0 [1, 2] world0)) 0 [1, 2] 2 \<and>
   vec_holds (push_all trivial_T 1 [7, 8, 9] (push_all trivial_T 0 [1, 2] world0)) 1 [7, 8, 9] 4 \<and>
   fits trivial_T 3 \<and>
   (\<exists>w'. Vector_copy_assign trivial_T 0 1
            (push_all trivial_T 1 [7, 8, 9] (push_all trivial_T 0 [1, 2] world0)) = (Inr (), w') \<and>
      vec_holds w' 0 [7, 8, 9] 3 \<and> vec_holds w' 1 [7, 8, 9] 4) \<and>
   (\<exists>w'. Vector_copy_assign trivial_T 1 0
            (push_all trivial_T 1 [7, 8, 9] (push_all trivial_T 0 [1, 2] world0)) = (Inr (), w') \<and>
      vec_holds w' 1 [1, 2] 4 \<and> vec_holds w' 0 [1, 2] 2) \<and>
   fst (Vector_copy_assign trivial_T 1 0
          ((push_all trivial_T 1 [7, 8, 9] (push_all trivial_T 0 [1, 2] world0))\<lparr>fault := Some 1\<rparr>)) =
     Inl (ElementFailure CopyAssign) \<and>
   (\<exists>w'. Vector_copy_assign trivial_T 0 1
            ((push_all trivial_T 1 [7, 8, 9] (push_all trivial_T 0 [1, 2] world0))\<lparr>fault := Some 2\<rparr>) =
            (Inl (ElementFailure CopyConstruct), w') \<and>
      blocks w' = blocks (push_all trivial_T 1 [7, 8, 9] (push_all trivial_T 0 [1, 2] world0)) \<and>
      vectors w' = vectors (push_all trivial_T 1 [7, 8, 9] (push_all trivial_T 0 [1, 2] world0)))"
proof -
  let ?W = "push_all trivial_T 1 [7, 8, 9] (push_all trivial_T 0 [1, 2] world0)"
  let ?V = "?W\<lparr>fault := Some 1\<rparr>"
  let ?U = "?W\<lparr>fault := Some 2\<rparr>"
  have h0: "vec_holds ?W 0 [1, 2] 2" and h1: "vec_holds ?W 1 [7, 8, 9] 4"
    and s01: "separate_buffers ?W 0 1" and s10: "separate_buffers ?W 1 0"
    and f: "fresh_next ?W" and n: "fault ?W = None"
    by (simp_all add: model_defs example_defs separate_buffers_def)
  have g0: "vec_holds ?V 0 [1, 2] 2" and g1: "vec_holds ?V 1 [7, 8, 9] 4"
    and t10: "separate_buffers ?V 1 0" and fv: "fresh_next ?V" and nv: "fault ?V = Some 1"
    by (simp_all add: model_defs example_defs separate_buffers_def)
  have k0: "vec_holds ?U 0 [1, 2] 2" and k1: "vec_holds ?U 1 [7, 8, 9] 4"
    and u01: "separate_buffers ?U 0 1" and fu: "fresh_next ?U"
    by (simp_all add: model_defs example_defs separate_buffers_def)
  have d01: "(0::nat) \<noteq> 1" and d10: "(1::nat) \<noteq> 0" by simp_all
  have fit3: "fits trivial_T 3" by (simp add: fits_def trivial_T_def size_limit_def)
  then have fa: "2 < length [7, 8, 9 :: nat] \<longrightarrow> fits trivial_T (length [7, 8, 9 :: nat])"
    by (simp add: numeral_3_eq_3)
  have fb: "4 < length [1, 2 :: nat] \<longrightarrow> fits trivial_T (length [1, 2 :: nat])"
    by simp
  note P = Vector_copy_assign_spec [where w = ?W and this = 0 and xs = "[1, 2]" and cap = 2
      and other = 1 and ys = "[7, 8, 9]" and cap' = 4 and T = trivial_T, THEN conjunct1, rule_format,
      OF conjI [OF h0 conjI [OF h1 conjI [OF d01 conjI [OF s01 conjI [OF f fa]]]]]]
  from P n obtain w1 where ok1: "Vector_copy_assign trivial_T 0 1 ?W = (Inr (), w1)" by blast
  from P [THEN conjunct2, THEN conjunct1, rule_format, OF ok1]
  have 1: "vec_holds w1 0 [7, 8, 9] 3 \<and> vec_holds w1 1 [7, 8, 9] 4"
    by (simp add: eval_nat_numeral)
  note Q = Vector_copy_assign_spec [where w = ?W and this = 1 and xs = "[7, 8, 9]" and cap = 4
      and other = 0 and ys = "[1, 2]" and cap' = 2 and T = trivial_T, THEN conjunct1, rule_format,
      OF conjI [OF h1 conjI [OF h0 conjI [OF d10 conjI [OF s10 conjI [OF f fb]]]]]]
  from Q n obtain w2 where ok2: "Vector_copy_assign trivial_T 1 0 ?W = (Inr (), w2)" by blast
  from Q [THEN conjunct2, THEN conjunct1, rule_format, OF ok2]
  have 2: "vec_holds w2 1 [1, 2] 4 \<and> vec_holds w2 0 [1, 2] 2"
    by (simp add: eval_nat_numeral)
  note R = Vector_copy_assign_spec [where w = ?V and this = 1 and xs = "[7, 8, 9]" and cap = 4
      and other = 0 and ys = "[1, 2]" and cap' = 2 and T = trivial_T, THEN conjunct1, rule_format,
      OF conjI [OF g1 conjI [OF g0 conjI [OF d10 conjI [OF t10 conjI [OF fv fb]]]]]]
  from R [THEN conjunct2, THEN conjunct2, THEN conjunct1, rule_format, of 1] nv
  have 3: "fst (Vector_copy_assign trivial_T 1 0 ?V) = Inl (ElementFailure CopyAssign)"
    by (simp add: eval_nat_numeral)
  have "fst (Vector_copy_assign trivial_T 0 1 ?U) = Inl (ElementFailure CopyConstruct)"
    by (simp add: model_defs example_defs)
  then obtain w4 where bad: "Vector_copy_assign trivial_T 0 1 ?U = (Inl (ElementFailure CopyConstruct), w4)"
    by (metis prod.collapse)
  note S = Vector_copy_assign_spec [where w = ?U and this = 0 and xs = "[1, 2]" and cap = 2
      and other = 1 and ys = "[7, 8, 9]" and cap' = 4 and T = trivial_T, THEN conjunct1, rule_format,
      OF conjI [OF k0 conjI [OF k1 conjI [OF d01 conjI [OF u01 conjI [OF fu fa]]]]]]
  from S [THEN conjunct2, THEN conjunct2, THEN conjunct2, rule_format, OF _ bad]
  have 4: "blocks w4 = blocks ?W \<and> vectors w4 = vectors ?W"
    by (simp add: eval_nat_numeral)
  from h0 h1 fit3 ok1 1 ok2 2 3 bad 4 show ?thesis by blast
qed

end
